theory Spec2Isabelle
  imports Complex_Main "HOL-Library.Word"
begin

unbundle bit_operations_syntax

section \<open>JavaScript values used by the worker\<close>

text \<open>
  A JavaScript string is a sequence of UTF-16 code units; a code unit is modelled as a
  natural number. \<open>js\<close> turns an ASCII literal of the source into such a sequence. A
  \<open>Uint8Array\<close> is a list of 8-bit words. A Number that holds an integer is an \<open>int\<close>.
\<close>

type_synonym js_string = "nat list"
type_synonym u8 = "8 word"

definition js :: "string \<Rightarrow> js_string" where
  "js s = map of_char s"

text \<open>
  The throws of the core. \<open>InvalidEncoding\<close> is \<^verbatim>\<open>throw new Error('Invalid base32')\<close>.
  The four ways in which \<open>parseOtpAuthUrl\<close> throws are the reasons of \<open>InvalidUri\<close>: the
  \<open>TypeError\<close> of \<^verbatim>\<open>new URL\<close>, the two \<open>Error\<close>s of the function itself and the
  \<open>URIError\<close> of \<open>decodeURIComponent\<close>; the caller catches all of them alike.
  \<open>RangeError\<close> is the throw of \<open>DataView.setUint32\<close> outside the buffer, and
  \<open>CryptoFailure\<close> a rejection by \<open>crypto.subtle\<close>.
\<close>

datatype uri_failure = Unparseable | WrongProtocol | WrongType | MalformedLabel

datatype error = InvalidEncoding | InvalidUri uri_failure | RangeError | CryptoFailure

subsection \<open>The 32-bit integer operators\<close>

text \<open>
  The operators \<^verbatim>\<open><<\<close>, \<^verbatim>\<open>>>\<close>, \<^verbatim>\<open>|\<close> and \<^verbatim>\<open>&\<close> convert their operands with ToInt32
  (reduction modulo \<open>2^32\<close> into the signed range) and give a signed 32-bit result; a shift
  count is taken modulo 32. \<^verbatim>\<open>>>\<close> propagates the sign. An operand \<open>undefined\<close>
  (\<open>None\<close>) is NaN as a number, which ToInt32 maps to 0: \<open>operand\<close> gives it as 0.
\<close>

definition ToInt32 :: "int \<Rightarrow> int" where
  "ToInt32 x = signed_take_bit 31 x"

definition ToUint32 :: "int \<Rightarrow> int" where
  "ToUint32 x = take_bit 32 x"

definition operand :: "int option \<Rightarrow> int" where
  "operand v = (case v of None \<Rightarrow> 0 | Some x \<Rightarrow> x)"

definition js_shl :: "int \<Rightarrow> nat \<Rightarrow> int" where
  "js_shl a n = ToInt32 (push_bit (n mod 32) (ToInt32 a))"

definition js_sar :: "int \<Rightarrow> nat \<Rightarrow> int" where
  "js_sar a n = drop_bit (n mod 32) (ToInt32 a)"

definition js_or :: "int \<Rightarrow> int \<Rightarrow> int" where
  "js_or a b = ToInt32 a OR ToInt32 b"

definition js_and :: "int \<Rightarrow> int \<Rightarrow> int" where
  "js_and a b = ToInt32 a AND ToInt32 b"

subsection \<open>String methods\<close>

text \<open>
  \<open>String.prototype.toUpperCase\<close> splits the string into code points (a lead surrogate
  followed by a trail surrogate is one code point, any other code unit is one by itself),
  maps every code point to its upper-case mapping and encodes the result in UTF-16 again.
  On ASCII the mapping sends \<open>a\<close>..\<open>z\<close> to \<open>A\<close>..\<open>Z\<close> and leaves the rest alone. The mapping
  of the other code points is the Unicode table of the runtime, which is no part of the
  repository: it is the parameter \<open>UC\<close> of everything below.
\<close>

fun StringToCodePoints :: "js_string \<Rightarrow> nat list" where
  "StringToCodePoints (h # l # cs) =
     (if 0xD800 \<le> h \<and> h \<le> 0xDBFF \<and> 0xDC00 \<le> l \<and> l \<le> 0xDFFF
      then (0x10000 + (h - 0xD800) * 0x400 + (l - 0xDC00)) # StringToCodePoints cs
      else h # StringToCodePoints (l # cs))"
| "StringToCodePoints cs = cs"

definition UTF16EncodeCodePoint :: "nat \<Rightarrow> js_string" where
  "UTF16EncodeCodePoint cp =
     (if cp \<le> 0xFFFF then [cp]
      else [0xD800 + (cp - 0x10000) div 0x400, 0xDC00 + (cp - 0x10000) mod 0x400])"

definition toUppercase_cp :: "(nat \<Rightarrow> nat list) \<Rightarrow> nat \<Rightarrow> nat list" where
  "toUppercase_cp UC cp =
     (if cp < 128 then [if 97 \<le> cp \<and> cp \<le> 122 then cp - 32 else cp] else UC cp)"

definition toUpperCase :: "(nat \<Rightarrow> nat list) \<Rightarrow> js_string \<Rightarrow> js_string" where
  "toUpperCase UC s =
     concat (map UTF16EncodeCodePoint (concat (map (toUppercase_cp UC) (StringToCodePoints s))))"

text \<open>
  An upper-case table without any entry: every non-ASCII code point is its own upper case.
  It serves to evaluate the functions on ASCII inputs, where the table is never consulted,
  and on the euro sign U+20AC, which has no case mapping in Unicode either.
\<close>

definition no_mapping :: "nat \<Rightarrow> nat list" where
  "no_mapping cp = [cp]"

text \<open>\<^verbatim>\<open>s.replace(/ /g, '')\<close> deletes every code unit U+0020, and nothing else.\<close>

definition remove_spaces :: "js_string \<Rightarrow> js_string" where
  "remove_spaces s = filter (\<lambda>c. c \<noteq> 32) s"

text \<open>\<^verbatim>\<open>s.replace(/=+$/, '')\<close> deletes the run of \<open>=\<close> (U+003D) that ends the string.\<close>

definition strip_padding :: "js_string \<Rightarrow> js_string" where
  "strip_padding s = rev (dropWhile (\<lambda>c. c = 61) (rev s))"

text \<open>
  \<open>alphabet.indexOf(clean[i])\<close>: the first position of a one-unit string, or \<open>-1\<close>.
\<close>

fun indexOf :: "js_string \<Rightarrow> nat \<Rightarrow> int" where
  "indexOf [] c = -1"
| "indexOf (x # xs) c =
     (if x = c then 0 else (let r = indexOf xs c in if r = -1 then -1 else r + 1))"

section \<open>Base32 decoding: \<open>base32ToBytes\<close>\<close>

definition alphabet :: js_string where
  "alphabet = js ''ABCDEFGHIJKLMNOPQRSTUVWXYZ234567''"

definition clean :: "(nat \<Rightarrow> nat list) \<Rightarrow> js_string \<Rightarrow> js_string" where
  "clean UC str = strip_padding (toUpperCase UC str)"

text \<open>
  The \<open>for\<close> loop over \<open>clean\<close>, with the variables \<open>bits\<close>, \<open>value\<close> and \<open>bytes\<close> as
  arguments. \<open>value\<close> is never masked: it keeps every symbol read so far, wrapped to 32
  bits by \<^verbatim>\<open><<\<close>. \<open>bits - 8\<close> is only computed under \<open>bits >= 8\<close>.
\<close>

fun decode_loop :: "js_string \<Rightarrow> nat \<Rightarrow> int \<Rightarrow> int list \<Rightarrow> error + int list" where
  "decode_loop [] bits val bytes = Inr bytes"
| "decode_loop (c # cs) bits val bytes =
     (let idx = indexOf alphabet c in
      if idx = -1 then Inl InvalidEncoding
      else
        let val = js_or (js_shl val 5) idx;
            bits = bits + 5
        in if bits \<ge> 8
           then decode_loop cs (bits - 8) val (bytes @ [js_and (js_sar val (bits - 8)) 0xff])
           else decode_loop cs bits val bytes)"

text \<open>\<^verbatim>\<open>new Uint8Array(bytes)\<close> stores every number modulo 256.\<close>

definition Uint8Array :: "int list \<Rightarrow> u8 list" where
  "Uint8Array bytes = map word_of_int bytes"

definition base32ToBytes :: "(nat \<Rightarrow> nat list) \<Rightarrow> js_string \<Rightarrow> error + u8 list" where
  "base32ToBytes UC str =
     (case decode_loop (clean UC str) 0 0 [] of
        Inl e \<Rightarrow> Inl e
      | Inr bytes \<Rightarrow> Inr (Uint8Array bytes))"

subsection \<open>The reference decoder of the specification\<close>

text \<open>
  The alphabet of RFC 4648 is \<open>A\<close>..\<open>Z\<close> (values 0 to 25) and \<open>2\<close>..\<open>7\<close> (values 26 to 31).
\<close>

definition in_alphabet :: "nat \<Rightarrow> bool" where
  "in_alphabet c \<longleftrightarrow> (65 \<le> c \<and> c \<le> 90) \<or> (50 \<le> c \<and> c \<le> 55)"

definition rfc4648_value :: "nat \<Rightarrow> nat" where
  "rfc4648_value c = (if 65 \<le> c \<and> c \<le> 90 then c - 65 else c - 24)"

text \<open>
  The decoder in the words of the specification: a bit buffer \<open>buf\<close> that holds \<open>n\<close>
  bits takes five more bits per symbol; as soon as it holds at least eight, its top eight
  bits are emitted as a byte and removed from it. What is left at the end of the input
  is dropped.
\<close>

fun reference_decode :: "nat \<Rightarrow> nat \<Rightarrow> js_string \<Rightarrow> u8 list" where
  "reference_decode buf n [] = []"
| "reference_decode buf n (c # cs) =
     (let buf' = buf * 32 + rfc4648_value c; n' = n + 5
      in if n' \<ge> 8
         then word_of_nat (buf' div 2 ^ (n' - 8))
                # reference_decode (buf' mod 2 ^ (n' - 8)) (n' - 8) cs
         else reference_decode buf' n' cs)"

section \<open>The generator: class \<open>TOTP\<close>\<close>

record TOTP =
  secret :: "u8 list"
  period :: int
  digits :: nat
  algorithm :: js_string

text \<open>The constructor: it deletes the spaces of the text and decodes the rest.\<close>

definition TOTP_new :: "(nat \<Rightarrow> nat list) \<Rightarrow> js_string \<Rightarrow> error + TOTP" where
  "TOTP_new UC text =
     (case base32ToBytes UC (remove_spaces text) of
        Inl e \<Rightarrow> Inl e
      | Inr bytes \<Rightarrow>
          Inr \<lparr>secret = bytes, period = 30, digits = 6, algorithm = js ''SHA-1''\<rparr>)"

subsection \<open>The counter message\<close>

text \<open>
  \<^verbatim>\<open>new ArrayBuffer(8)\<close> is eight zero bytes. \<open>DataView.setUint32(byteOffset, value)\<close>
  stores ToUint32 of the value in four bytes, the most significant first, and throws a
  \<open>RangeError\<close> when the four bytes do not fit in the buffer.
\<close>

definition ArrayBuffer :: "nat \<Rightarrow> u8 list" where
  "ArrayBuffer n = replicate n 0"

definition setUint32 :: "u8 list \<Rightarrow> nat \<Rightarrow> int \<Rightarrow> error + u8 list" where
  "setUint32 buf byteOffset v =
     (if byteOffset + 4 > length buf then Inl RangeError
      else
        let n = ToUint32 v
        in Inr (buf[byteOffset := word_of_int (drop_bit 24 n),
                    byteOffset + 1 := word_of_int (drop_bit 16 n),
                    byteOffset + 2 := word_of_int (drop_bit 8 n),
                    byteOffset + 3 := word_of_int n]))"

text \<open>The first three statements of \<open>generateOTP\<close>: the buffer handed to the HMAC.\<close>

definition message :: "int \<Rightarrow> error + u8 list" where
  "message counter = setUint32 (ArrayBuffer 8) 4 counter"

subsection \<open>Dynamic truncation and formatting\<close>

text \<open>
  Reading a typed array at an index outside it gives \<open>undefined\<close>, here \<open>None\<close>.
\<close>

definition element :: "u8 list \<Rightarrow> int \<Rightarrow> int option" where
  "element a i = (if 0 \<le> i \<and> i < int (length a) then Some (uint (a ! nat i)) else None)"

text \<open>
  The remainder \<^verbatim>\<open>%\<close> takes the sign of the dividend. \<open>Number.prototype.toString\<close>
  writes an integer below \<open>10^21\<close> in decimal digits, with a minus sign when it is
  negative. \<open>padStart\<close> with a one-unit filler puts copies of it in front of a string
  that is shorter than the target length.
\<close>

definition js_rem :: "int \<Rightarrow> int \<Rightarrow> int" where
  "js_rem a b = sgn a * (\<bar>a\<bar> mod \<bar>b\<bar>)"

fun decimal :: "nat \<Rightarrow> js_string" where
  "decimal n = (if n < 10 then [48 + n] else decimal (n div 10) @ [48 + n mod 10])"

declare decimal.simps [simp del]

definition toString :: "int \<Rightarrow> js_string" where
  "toString x = (if x < 0 then 45 # decimal (nat (- x)) else decimal (nat x))"

definition padStart :: "js_string \<Rightarrow> nat \<Rightarrow> nat \<Rightarrow> js_string" where
  "padStart s n fill = (if n \<le> length s then s else replicate (n - length s) fill @ s)"

definition truncation_offset :: "u8 list \<Rightarrow> int" where
  "truncation_offset hmac = js_and (operand (element hmac (int (length hmac) - 1))) 0xf"

definition binCode :: "u8 list \<Rightarrow> int" where
  "binCode hmac =
     (let offset = truncation_offset hmac
      in js_or (js_or (js_or (js_shl (js_and (operand (element hmac offset)) 0x7f) 24)
                             (js_shl (js_and (operand (element hmac (offset + 1))) 0xff) 16))
                      (js_shl (js_and (operand (element hmac (offset + 2))) 0xff) 8))
               (js_and (operand (element hmac (offset + 3))) 0xff))"

definition dynamic_truncation :: "TOTP \<Rightarrow> u8 list \<Rightarrow> js_string" where
  "dynamic_truncation g hmac =
     (let otp = js_rem (binCode hmac) (10 ^ digits g)
      in padStart (toString otp) (digits g) 48)"

subsection \<open>\<open>generateOTP\<close> and \<open>generate\<close>\<close>

text \<open>
  \<open>crypto.subtle.importKey\<close> followed by \<open>crypto.subtle.sign\<close> is the HMAC of the runtime,
  no part of the repository: it is the parameter \<open>sign\<close>, a function of the hash name, the
  key and the message that returns the signature, or \<open>None\<close> when the runtime rejects.
\<close>

type_synonym hmac_sign = "js_string \<Rightarrow> u8 list \<Rightarrow> u8 list \<Rightarrow> u8 list option"

definition generateOTP :: "hmac_sign \<Rightarrow> TOTP \<Rightarrow> int \<Rightarrow> error + js_string" where
  "generateOTP sign g counter =
     (case message counter of
        Inl e \<Rightarrow> Inl e
      | Inr buf \<Rightarrow>
          (case sign (algorithm g) (secret g) buf of
             None \<Rightarrow> Inl CryptoFailure
           | Some hmac \<Rightarrow> Inr (dynamic_truncation g hmac)))"

text \<open>
  \<open>generate\<close> reads the clock: \<open>now\<close> is the value of \<open>Date.now()\<close>, an integer number of
  milliseconds. The two divisions are taken in the reals; on doubles they give the same
  floor for every clock value whose counter is below \<open>2^32\<close>.
\<close>

definition generate :: "hmac_sign \<Rightarrow> TOTP \<Rightarrow> int \<Rightarrow> error + js_string" where
  "generate sign g now =
     generateOTP sign g \<lfloor>real_of_int now / 1000 / real_of_int (period g)\<rfloor>"

text \<open>
  Two values of HMAC-SHA-1, for the evaluation of the generator: the key
  \<open>12345678901234567890\<close> at the counters 0 and 1, from the test vectors of RFC 4226
  (appendix D). Everywhere else this table rejects.
\<close>

definition rfc4226_key :: "u8 list" where
  "rfc4226_key =
     [49, 50, 51, 52, 53, 54, 55, 56, 57, 48, 49, 50, 51, 52, 53, 54, 55, 56, 57, 48]"

definition rfc4226_sign :: hmac_sign where
  "rfc4226_sign alg key msg =
     (if alg = js ''SHA-1'' \<and> key = rfc4226_key
      then
        if msg = [0, 0, 0, 0, 0, 0, 0, 0]
        then Some [0xcc, 0x93, 0xcf, 0x18, 0x50, 0x8d, 0x94, 0x93, 0x4c, 0x64,
                   0xb6, 0x5d, 0x8b, 0xa7, 0x66, 0x7f, 0xb7, 0xcd, 0xe4, 0xb0]
        else if msg = [0, 0, 0, 0, 0, 0, 0, 1]
        then Some [0x75, 0xa4, 0x8a, 0x19, 0xd4, 0xcb, 0xe1, 0x00, 0x64, 0x4e,
                   0x8a, 0xc1, 0x39, 0x7e, 0xea, 0x74, 0x7a, 0x2d, 0x33, 0xab]
        else None
      else None)"

subsection \<open>The references of the specification for the generator\<close>

text \<open>
  Dynamic truncation in the words of the specification, for a digest of 20 bytes: the
  offset is the low nibble of byte 19, and the four bytes from the offset on, the top bit
  of the first one masked, form a big-endian number.
\<close>

definition reference_binCode :: "u8 list \<Rightarrow> nat" where
  "reference_binCode digest =
     (let offset = unat (digest ! 19) mod 16
      in (unat (digest ! offset) mod 128) * 2 ^ 24 + unat (digest ! (offset + 1)) * 2 ^ 16
           + unat (digest ! (offset + 2)) * 2 ^ 8 + unat (digest ! (offset + 3)))"

text \<open>The decimal digits of \<open>v\<close>, padded with zeros on the left to exactly \<open>k\<close> digits.\<close>

fun fixed_decimal :: "nat \<Rightarrow> nat \<Rightarrow> js_string" where
  "fixed_decimal 0 v = []"
| "fixed_decimal (Suc k) v = fixed_decimal k (v div 10) @ [48 + v mod 10]"

definition reference_code :: "u8 list \<Rightarrow> js_string" where
  "reference_code digest = fixed_decimal 6 (reference_binCode digest mod 10 ^ 6)"

text \<open>
  The big-endian encoding of an unsigned number in \<open>n\<close> bytes, and the true 8-byte
  encoding of a counter, which exists for the counters from 0 to \<open>2^64 - 1\<close>.
\<close>

fun be_bytes :: "nat \<Rightarrow> int \<Rightarrow> u8 list" where
  "be_bytes 0 x = []"
| "be_bytes (Suc n) x = be_bytes n (x div 256) @ [word_of_int x]"

definition big_endian_8 :: "int \<Rightarrow> u8 list option" where
  "big_endian_8 c = (if 0 \<le> c \<and> c < 2 ^ 64 then Some (be_bytes 8 c) else None)"

section \<open>The provisioning URI: \<open>parseOtpAuthUrl\<close>\<close>

subsection \<open>\<open>decodeURIComponent\<close>\<close>

text \<open>
  \<open>decodeURIComponent\<close> copies every code unit but \<open>%\<close>. A \<open>%\<close> must start an escape
  \<open>%XX\<close> of two hexadecimal digits. An octet below \<open>0x80\<close> is the code unit itself; an
  octet with two, three or four leading one bits starts a UTF-8 sequence of as many
  escapes, which must be the encoding of a code point (shortest form, no surrogate, at
  most \<open>0x10FFFF\<close>) and is replaced by that code point in UTF-16. Everything else is a
  \<open>URIError\<close>, here \<open>None\<close>.
\<close>

definition hex_digit :: "nat \<Rightarrow> nat option" where
  "hex_digit c =
     (if 48 \<le> c \<and> c \<le> 57 then Some (c - 48)
      else if 65 \<le> c \<and> c \<le> 70 then Some (c - 55)
      else if 97 \<le> c \<and> c \<le> 102 then Some (c - 87)
      else None)"

fun escape_octet :: "js_string \<Rightarrow> (nat \<times> js_string) option" where
  "escape_octet (p # h # l # rest) =
     (if p = 37
      then (case (hex_digit h, hex_digit l) of
              (Some a, Some b) \<Rightarrow> Some (16 * a + b, rest)
            | _ \<Rightarrow> None)
      else None)"
| "escape_octet s = None"

fun continuation :: "nat \<Rightarrow> js_string \<Rightarrow> (nat list \<times> js_string) option" where
  "continuation 0 s = Some ([], s)"
| "continuation (Suc n) s =
     (case escape_octet s of
        None \<Rightarrow> None
      | Some (b, rest) \<Rightarrow>
          (case continuation n rest of
             None \<Rightarrow> None
           | Some (bs, rest') \<Rightarrow> Some (b # bs, rest')))"

text \<open>The number of leading one bits of an octet; five stands for five or more.\<close>

definition leading_ones :: "nat \<Rightarrow> nat" where
  "leading_ones b =
     (if b < 0x80 then 0 else if b < 0xC0 then 1 else if b < 0xE0 then 2
      else if b < 0xF0 then 3 else if b < 0xF8 then 4 else 5)"

definition scalar_value :: "nat \<Rightarrow> nat \<Rightarrow> nat option" where
  "scalar_value lowest cp =
     (if lowest \<le> cp \<and> cp \<le> 0x10FFFF \<and> \<not> (0xD800 \<le> cp \<and> cp \<le> 0xDFFF) then Some cp
      else None)"

definition trail :: "nat \<Rightarrow> bool" where
  "trail b \<longleftrightarrow> 0x80 \<le> b \<and> b < 0xC0"

fun utf8_code_point :: "nat list \<Rightarrow> nat option" where
  "utf8_code_point [a, b] =
     (if trail b then scalar_value 0x80 ((a - 0xC0) * 0x40 + (b - 0x80)) else None)"
| "utf8_code_point [a, b, c] =
     (if trail b \<and> trail c
      then scalar_value 0x800 ((a - 0xE0) * 0x1000 + (b - 0x80) * 0x40 + (c - 0x80))
      else None)"
| "utf8_code_point [a, b, c, d] =
     (if trail b \<and> trail c \<and> trail d
      then scalar_value 0x10000
             ((a - 0xF0) * 0x40000 + (b - 0x80) * 0x1000 + (c - 0x80) * 0x40 + (d - 0x80))
      else None)"
| "utf8_code_point octets = None"

text \<open>One round of the loop of \<open>Decode\<close>: the code units it appends, and the rest.\<close>

definition decode_one :: "js_string \<Rightarrow> (js_string \<times> js_string) option" where
  "decode_one s =
     (case s of
        [] \<Rightarrow> None
      | c # cs \<Rightarrow>
          if c \<noteq> 37 then Some ([c], cs)
          else
            (case escape_octet s of
               None \<Rightarrow> None
             | Some (B, rest) \<Rightarrow>
                 let n = leading_ones B
                 in if n = 0 then Some ([B], rest)
                    else if n = 1 \<or> n > 4 then None
                    else
                      (case continuation (n - 1) rest of
                         None \<Rightarrow> None
                       | Some (octets, rest') \<Rightarrow>
                           (case utf8_code_point (B # octets) of
                              None \<Rightarrow> None
                            | Some V \<Rightarrow> Some (UTF16EncodeCodePoint V, rest')))))"

function decodeURIComponent :: "js_string \<Rightarrow> js_string option" where
  "decodeURIComponent s =
     (if s = [] then Some []
      else
        (case decode_one s of
           None \<Rightarrow> None
         | Some (out, rest) \<Rightarrow>
             (case decodeURIComponent rest of
                None \<Rightarrow> None
              | Some r \<Rightarrow> Some (out @ r))))"
  by pat_completeness auto
termination
proof -
  have e: "length rest < length s" if "escape_octet s = Some (b, rest)" for s b rest
    using that by (induction s rule: escape_octet.induct) (auto split: if_splits option.splits)
  have c: "length rest \<le> length s" if "continuation n s = Some (bs, rest)" for n s bs rest
    using that
  proof (induction n arbitrary: s bs rest)
    case 0
    then show ?case by simp
  next
    case (Suc n)
    then show ?case
      by (fastforce split: option.splits dest: e)
  qed
  have d: "length rest < length s" if "decode_one s = Some (out, rest)" for s out rest
    using that
    by (cases s)
      (auto simp: decode_one_def Let_def split: if_splits option.splits dest!: e c)
  show ?thesis
    by (relation "measure length") (auto dest: d)
qed

declare decodeURIComponent.simps [simp del]

subsection \<open>The parser\<close>

text \<open>
  \<^verbatim>\<open>new URL(url)\<close> is the URL parser of the runtime, no part of the repository: it is the
  parameter \<open>new_URL\<close>, which gives the components that the function reads, or \<open>None\<close>
  when the constructor throws its \<open>TypeError\<close>. \<open>searchParams\<close> holds the decoded
  name-value pairs of the query, in their order.
\<close>

record URL =
  protocol :: js_string
  hostname :: js_string
  pathname :: js_string
  searchParams :: "(js_string \<times> js_string) list"

text \<open>
  \<open>Object.fromEntries\<close> defines one property per pair, a later pair replacing an earlier
  one of the same name. Reading a property that was never defined gives \<open>undefined\<close>,
  here \<open>None\<close>.
\<close>

definition fromEntries :: "(js_string \<times> js_string) list \<Rightarrow> (js_string \<rightharpoonup> js_string)" where
  "fromEntries entries = foldl (\<lambda>obj (k, v). obj(k \<mapsto> v)) Map.empty entries"

record otpauth =
  label :: js_string
  secret' :: "js_string option"
  issuer :: "js_string option"

definition parseOtpAuthUrl :: "(js_string \<Rightarrow> URL option) \<Rightarrow> js_string \<Rightarrow> error + otpauth" where
  "parseOtpAuthUrl new_URL url =
     (case new_URL url of
        None \<Rightarrow> Inl (InvalidUri Unparseable)
      | Some u \<Rightarrow>
          if protocol u \<noteq> js ''otpauth:'' then Inl (InvalidUri WrongProtocol)
          else if hostname u \<noteq> js ''totp'' then Inl (InvalidUri WrongType)
          else
            (case decodeURIComponent (drop 1 (pathname u)) of
               None \<Rightarrow> Inl (InvalidUri MalformedLabel)
             | Some l \<Rightarrow>
                 let params = fromEntries (searchParams u)
                 in Inr \<lparr>label = l, secret' = params (js ''secret''),
                         issuer = params (js ''issuer'')\<rparr>))"

text \<open>
  What the URL parser of the WHATWG standard returns on the inputs of the scenarios
  below; on every other input this table is \<open>None\<close>.
\<close>

definition scenario_URL :: "js_string \<Rightarrow> URL option" where
  "scenario_URL url =
     (if url = js ''otpauth://totp/Example:alice@site.com?secret=JBSWY3DPEHPK3PXP&issuer=Example''
      then Some \<lparr>protocol = js ''otpauth:'', hostname = js ''totp'',
                 pathname = js ''/Example:alice@site.com'',
                 searchParams = [(js ''secret'', js ''JBSWY3DPEHPK3PXP''),
                                 (js ''issuer'', js ''Example'')]\<rparr>
      else if url = js ''otpauth://totp/x''
      then Some \<lparr>protocol = js ''otpauth:'', hostname = js ''totp'', pathname = js ''/x'',
                 searchParams = []\<rparr>
      else if url = js ''otpauth://hotp/x?secret=ABC''
      then Some \<lparr>protocol = js ''otpauth:'', hostname = js ''hotp'', pathname = js ''/x'',
                 searchParams = [(js ''secret'', js ''ABC'')]\<rparr>
      else if url = js ''hotp://totp/x?secret=ABC''
      then Some \<lparr>protocol = js ''hotp:'', hostname = js ''totp'', pathname = js ''/x'',
                 searchParams = [(js ''secret'', js ''ABC'')]\<rparr>
      else if url = js ''otpauth://totp/%FF?secret=ABC''
      then Some \<lparr>protocol = js ''otpauth:'', hostname = js ''totp'', pathname = js ''/%FF'',
                 searchParams = [(js ''secret'', js ''ABC'')]\<rparr>
      else None)"

text \<open>
  The text that the loop of \<open>base32ToBytes\<close> runs over when the constructor is called:
  the constructor's \<open>replace\<close>, then \<open>toUpperCase\<close> and the second \<open>replace\<close>.
\<close>

definition normalized :: "(nat \<Rightarrow> nat list) \<Rightarrow> js_string \<Rightarrow> js_string" where
  "normalized UC text = clean UC (remove_spaces text)"

section \<open>Properties of the Base32 decoder\<close>

subsection \<open>The alphabet and \<open>indexOf\<close>\<close>

lemma alphabet_upt: "alphabet = [65..<91] @ [50..<56]"
  by (simp add: alphabet_def js_def)

lemma indexOf_bounds: "indexOf xs c = -1 \<or> (0 \<le> indexOf xs c \<and> indexOf xs c < int (length xs))"
  by (induction xs) (auto simp: Let_def)

lemma indexOf_notin: "c \<notin> set xs \<Longrightarrow> indexOf xs c = -1"
  by (induction xs) (auto simp: Let_def)

lemma indexOf_in: "c \<in> set xs \<Longrightarrow> 0 \<le> indexOf xs c"
  by (induction xs) (auto simp: Let_def)

lemma indexOf_append:
  "indexOf (xs @ ys) c =
     (if c \<in> set xs then indexOf xs c
      else if indexOf ys c = -1 then -1 else int (length xs) + indexOf ys c)"
proof (induction xs)
  case Nil
  then show ?case by simp
next
  case (Cons x xs)
  show ?case
    using Cons.IH indexOf_bounds [of ys c] indexOf_in [of c xs]
    by (auto simp: Let_def)
qed

lemma indexOf_upt: "indexOf [a..<b] c = (if a \<le> c \<and> c < b then int (c - a) else -1)"
proof (induction "b - a" arbitrary: a)
  case 0
  then show ?case by simp
next
  case (Suc k)
  then have ab: "a < b" and k: "k = b - Suc a" by auto
  have "[a..<b] = a # [Suc a..<b]" using ab by (simp add: upt_conv_Cons)
  then show ?case using Suc.hyps(1) [OF k] ab by (auto simp: Let_def)
qed

lemma indexOf_alphabet:
  "indexOf alphabet c = (if in_alphabet c then int (rfc4648_value c) else -1)"
  unfolding alphabet_upt indexOf_append indexOf_upt in_alphabet_def rfc4648_value_def
  by (auto simp del: upt_rec_numeral)

lemma in_alphabet_set: "in_alphabet c \<longleftrightarrow> c \<in> set alphabet"
  unfolding alphabet_upt in_alphabet_def
  by (auto simp del: upt_rec_numeral)

lemma rfc4648_value_less: "in_alphabet c \<Longrightarrow> rfc4648_value c < 32"
  by (auto simp: in_alphabet_def rfc4648_value_def)

subsection \<open>One round of the loop\<close>

text \<open>
  Only the low twelve bits of \<open>value\<close> are ever read, so the wrap-around of \<^verbatim>\<open><<\<close> at 32
  bits and the sign propagation of \<^verbatim>\<open>>>\<close> never reach an emitted byte.
\<close>

lemma take_bit_ToInt32: "n \<le> 32 \<Longrightarrow> take_bit n (ToInt32 x) = take_bit n x"
  by (simp add: ToInt32_def take_bit_signed_take_bit)

lemma ToInt32_small: "0 \<le> x \<Longrightarrow> x < 2 ^ 31 \<Longrightarrow> ToInt32 x = x"
  by (simp add: ToInt32_def signed_take_bit_int_eq_self)

lemma push_bit_or_add:
  fixes a r :: int
  assumes "0 \<le> r" "r < 2 ^ n"
  shows "push_bit n a OR r = a * 2 ^ n + r"
proof -
  have r: "take_bit n r = r"
    using assms by (simp add: take_bit_int_eq_self)
  have "push_bit n a + take_bit n r = push_bit n a OR take_bit n r"
    by (rule disjunctive_add) (auto simp: bit_simps)
  then show ?thesis
    by (simp add: r push_bit_eq_mult)
qed

lemma step_value:
  fixes v r :: int
  assumes "0 \<le> r" "r < 32" "b + 5 \<le> 32"
  shows "take_bit (b + 5) (js_or (js_shl v 5) r) = take_bit b v * 32 + r"
proof -
  have r: "take_bit (b + 5) r = r"
  proof -
    have "(2::int) ^ 5 \<le> 2 ^ (b + 5)"
      by (rule power_increasing) simp_all
    then show ?thesis
      using assms by (simp add: take_bit_int_eq_self)
  qed
  have "take_bit (b + 5) (js_or (js_shl v 5) r) = push_bit 5 (take_bit b v) OR r"
    using assms(3) by (simp add: js_or_def js_shl_def take_bit_ToInt32 r take_bit_push_bit)
  also have "\<dots> = take_bit b v * 32 + r"
    using push_bit_or_add [of r 5 "take_bit b v"] assms by simp
  finally show ?thesis .
qed

lemma step_byte:
  fixes v :: int
  assumes "k + 8 \<le> 32"
  shows "js_and (js_sar v k) 0xff = drop_bit k (take_bit (k + 8) v)"
proof -
  have m: "(255 :: int) = mask 8" by (simp add: mask_eq_exp_minus_1)
  have "ToInt32 255 = 255" by (simp add: ToInt32_small)
  then have "js_and (js_sar v k) 0xff = take_bit 8 (ToInt32 (js_sar v k))"
    by (simp add: js_and_def m take_bit_eq_mask)
  also have "\<dots> = take_bit 8 (drop_bit k (ToInt32 v))"
    using assms by (simp add: take_bit_ToInt32 js_sar_def)
  also have "\<dots> = drop_bit k (take_bit (k + 8) v)"
    using assms by (simp add: take_bit_drop_bit take_bit_ToInt32 add.commute)
  finally show ?thesis .
qed


lemma decode_loop_reference:
  assumes "\<forall>c\<in>set cs. in_alphabet c" and "bits < 8" and "int buf = take_bit bits v"
  shows "\<exists>bs. decode_loop cs bits v bytes = Inr bs
           \<and> Uint8Array bs = Uint8Array bytes @ reference_decode buf bits cs"
  using assms
proof (induction cs arbitrary: bits v bytes buf)
  case Nil
  then show ?case by simp
next
  case (Cons c cs)
  define r where "r = rfc4648_value c"
  define v' where "v' = js_or (js_shl v 5) (int r)"
  have c: "in_alphabet c" and cs: "\<forall>c\<in>set cs. in_alphabet c"
    using Cons.prems(1) by simp_all
  have r: "r < 32" using c by (simp add: r_def rfc4648_value_less)
  have idx: "indexOf alphabet c = int r" "int r \<noteq> -1"
    using c by (simp_all add: indexOf_alphabet r_def)
  have v': "take_bit (bits + 5) v' = int (buf * 32 + r)"
    using step_value [of "int r" bits v] r Cons.prems(2,3) by (simp add: v'_def)
  show ?case
  proof (cases "8 \<le> bits + 5")
    case True
    define k where "k = bits + 5 - 8"
    have k: "k < 8" "k + 8 = bits + 5" using True Cons.prems(2) by (simp_all add: k_def)
    have byte: "js_and (js_sar v' k) 0xff = int ((buf * 32 + r) div 2 ^ k)"
      using step_byte [of k v'] k v' by (simp add: drop_bit_eq_div zdiv_int)
    have rest: "int ((buf * 32 + r) mod 2 ^ k) = take_bit k v'"
    proof -
      have "take_bit k v' = take_bit k (take_bit (bits + 5) v')"
        using k by simp
      also have "\<dots> = take_bit k (int (buf * 32 + r))"
        by (simp only: v')
      finally show ?thesis
        by (simp add: take_bit_eq_mod zmod_int)
    qed
    obtain bs where bs: "decode_loop cs k v' (bytes @ [js_and (js_sar v' k) 0xff]) = Inr bs"
      "Uint8Array bs = Uint8Array (bytes @ [js_and (js_sar v' k) 0xff])
                        @ reference_decode ((buf * 32 + r) mod 2 ^ k) k cs"
      using Cons.IH [OF cs k(1) rest] by blast
    have "decode_loop (c # cs) bits v bytes = Inr bs"
      using True idx bs(1)
      by (simp add: Let_def v'_def [symmetric] k_def [symmetric])
    moreover have "Uint8Array bs = Uint8Array bytes @ reference_decode buf bits (c # cs)"
      using True bs(2)
      by (simp add: Let_def byte r_def [symmetric] k_def [symmetric] Uint8Array_def)
    ultimately show ?thesis by blast
  next
    case False
    then have b: "bits + 5 < 8" by simp
    obtain bs where bs: "decode_loop cs (bits + 5) v' bytes = Inr bs"
      "Uint8Array bs = Uint8Array bytes @ reference_decode (buf * 32 + r) (bits + 5) cs"
      using Cons.IH [OF cs b v' [symmetric]] by blast
    have "decode_loop (c # cs) bits v bytes = Inr bs"
      using False idx bs(1) by (simp add: Let_def v'_def [symmetric])
    moreover have "Uint8Array bs = Uint8Array bytes @ reference_decode buf bits (c # cs)"
      using False bs(2) by (simp add: Let_def r_def [symmetric])
    ultimately show ?thesis by blast
  qed
qed

lemma decode_loop_invalid:
  "\<exists>c\<in>set cs. \<not> in_alphabet c \<Longrightarrow> decode_loop cs bits v bytes = Inl InvalidEncoding"
  by (induction cs arbitrary: bits v bytes) (auto simp: Let_def indexOf_alphabet)

lemma decode_loop_error:
  "decode_loop cs bits v bytes = Inl e \<Longrightarrow> e = InvalidEncoding \<and> (\<exists>c\<in>set cs. \<not> in_alphabet c)"
  by (induction cs arbitrary: bits v bytes) (auto simp: Let_def indexOf_alphabet split: if_splits)

subsection \<open>Evaluation on the scenario inputs\<close>

lemmas normal_form_defs =
  clean_def toUpperCase_def toUppercase_cp_def UTF16EncodeCodePoint_def strip_padding_def
  remove_spaces_def js_def

lemma clean_scenario:
  "clean no_mapping (js ''jbswy3dpehpk3pxp=='') = js ''JBSWY3DPEHPK3PXP''"
  by (simp add: normal_form_defs)

lemma reference_decode_scenario:
  "reference_decode 0 0 (js ''JBSWY3DPEHPK3PXP'')
     = [72, 101, 108, 108, 111, 33, 222, 173, 190, 239]"
  by (simp add: js_def rfc4648_value_def)

subsection \<open>The decoder and its reference\<close>

text \<open>
  Claim C3. Whenever every symbol of the normalized input (upper-cased, trailing \<open>=\<close>
  stripped) lies in the alphabet \<open>A\<close>..\<open>Z\<close>, \<open>2\<close>..\<open>7\<close>, \<open>base32ToBytes\<close> returns the bytes
  of the reference decoder: five bits per symbol enter a bit buffer, the top eight bits
  leave it as a byte as soon as it holds eight, and the bits left over at the end are
  dropped without an error. An empty normalized input decodes to no bytes.
\<close>

theorem base32ToBytes_reference:
  "((\<forall>c\<in>set (clean UC str). in_alphabet c)
      \<longrightarrow> base32ToBytes UC str = Inr (reference_decode 0 0 (clean UC str)))
   \<and> (clean UC str = [] \<longrightarrow> base32ToBytes UC str = Inr [])"
proof -
  have main: "base32ToBytes UC str = Inr (reference_decode 0 0 (clean UC str))"
    if h: "\<forall>c\<in>set (clean UC str). in_alphabet c"
  proof -
    obtain bs where "decode_loop (clean UC str) 0 0 [] = Inr bs"
      and "Uint8Array bs = Uint8Array [] @ reference_decode 0 0 (clean UC str)"
      using decode_loop_reference [OF h, of 0 0 0 "[]"] by auto
    then show ?thesis
      by (simp add: base32ToBytes_def Uint8Array_def)
  qed
  moreover have "base32ToBytes UC str = Inr []" if "clean UC str = []"
    using that by (simp add: base32ToBytes_def Uint8Array_def)
  ultimately show ?thesis by blast
qed

theorem base32ToBytes_reference_witness:
  "list_all in_alphabet (clean no_mapping (js ''jbswy3dpehpk3pxp==''))
   \<and> base32ToBytes no_mapping (js ''jbswy3dpehpk3pxp=='')
       = Inr [72, 101, 108, 108, 111, 33, 222, 173, 190, 239]
   \<and> clean no_mapping (js ''===='') = []
   \<and> base32ToBytes no_mapping (js ''===='') = Inr []"
proof -
  have h: "\<forall>c\<in>set (clean no_mapping (js ''jbswy3dpehpk3pxp=='')). in_alphabet c"
    unfolding clean_scenario by (simp add: js_def in_alphabet_def)
  have e: "clean no_mapping (js ''===='') = []"
    by (simp add: normal_form_defs)
  show ?thesis
    using h e base32ToBytes_reference [of no_mapping "js ''jbswy3dpehpk3pxp==''"]
      base32ToBytes_reference [of no_mapping "js ''====''"]
    by (simp add: clean_scenario reference_decode_scenario list_all_iff)
qed

text \<open>
  Claim C4. Whenever the normalized input holds a symbol that is not in the alphabet
  \<open>A\<close>..\<open>Z\<close>, \<open>2\<close>..\<open>7\<close>, \<open>base32ToBytes\<close> throws \<open>InvalidEncoding\<close>; the result is the
  error alone, with none of the bytes decoded before the symbol.
\<close>

theorem base32ToBytes_invalid:
  "\<exists>c\<in>set (clean UC str). \<not> in_alphabet c \<Longrightarrow> base32ToBytes UC str = Inl InvalidEncoding"
  by (simp add: base32ToBytes_def decode_loop_invalid)

theorem base32ToBytes_invalid_witness:
  "(\<exists>c\<in>set (clean no_mapping (js ''1'')). \<not> in_alphabet c)
   \<and> base32ToBytes no_mapping (js ''1'') = Inl InvalidEncoding
   \<and> (\<exists>c\<in>set (clean no_mapping (js ''MZXW=6YQ'')). \<not> in_alphabet c)
   \<and> base32ToBytes no_mapping (js ''MZXW=6YQ'') = Inl InvalidEncoding
   \<and> (\<exists>c\<in>set (clean no_mapping [77, 8364]). \<not> in_alphabet c)
   \<and> base32ToBytes no_mapping [77, 8364] = Inl InvalidEncoding"
proof -
  have a: "\<exists>c\<in>set (clean no_mapping (js ''1'')). \<not> in_alphabet c"
    by (simp add: normal_form_defs in_alphabet_def)
  have b: "\<exists>c\<in>set (clean no_mapping (js ''MZXW=6YQ'')). \<not> in_alphabet c"
    by (simp add: normal_form_defs in_alphabet_def)
  have c: "\<exists>c\<in>set (clean no_mapping [77, 8364]). \<not> in_alphabet c"
    by (simp add: normal_form_defs no_mapping_def in_alphabet_def)
  show ?thesis
    using a b c base32ToBytes_invalid [OF a] base32ToBytes_invalid [OF b]
      base32ToBytes_invalid [OF c]
    by simp
qed

section \<open>Properties of the constructor\<close>

subsection \<open>The normalized text\<close>

lemma StringToCodePoints_ascii: "\<forall>c\<in>set s. c < 128 \<Longrightarrow> StringToCodePoints s = s"
  by (induction s rule: StringToCodePoints.induct) auto

lemma toUpperCase_ascii:
  assumes "\<forall>c\<in>set s. c < 128"
  shows "toUpperCase UC s = map (\<lambda>c. if 97 \<le> c \<and> c \<le> 122 then c - 32 else c) s"
proof -
  have "concat (map UTF16EncodeCodePoint (concat (map (toUppercase_cp UC) t)))
          = map (\<lambda>c. if 97 \<le> c \<and> c \<le> 122 then c - 32 else c) t"
    if "\<forall>c\<in>set t. c < 128" for t
    using that by (induction t) (auto simp: toUppercase_cp_def UTF16EncodeCodePoint_def)
  then show ?thesis
    using assms by (simp add: toUpperCase_def StringToCodePoints_ascii)
qed

lemma set_strip_padding: "set (strip_padding s) \<subseteq> set s"
  using set_dropWhileD [of _ "\<lambda>c. c = 61" "rev s"] by (auto simp: strip_padding_def)

lemma strip_padding_idem: "strip_padding (strip_padding s) = strip_padding s"
  by (simp add: strip_padding_def)

lemma strip_padding_no_pad: "61 \<notin> set s \<Longrightarrow> strip_padding s = s"
proof -
  assume a: "61 \<notin> set s"
  have "dropWhile (\<lambda>c. c = 61) (rev s) = rev s"
  proof (cases "rev s")
    case Nil
    then show ?thesis by simp
  next
    case (Cons x xs)
    then have "x \<in> set (rev s)" by simp
    then have "x \<noteq> 61" using a by auto
    then show ?thesis using Cons by simp
  qed
  then show ?thesis by (simp add: strip_padding_def)
qed

lemma toUpperCase_upper:
  assumes "\<forall>c\<in>set s. c < 97 \<or> (122 < c \<and> c < 128)"
  shows "toUpperCase UC s = s"
proof -
  have "\<forall>c\<in>set s. c < 128" using assms by auto
  then have "toUpperCase UC s = map (\<lambda>c. if 97 \<le> c \<and> c \<le> 122 then c - 32 else c) s"
    by (rule toUpperCase_ascii)
  also have "\<dots> = map (\<lambda>c. c) s"
    using assms by (intro map_cong) auto
  finally show ?thesis by simp
qed

lemma normalized_alphabet_fixed:
  assumes "\<forall>c\<in>set n. in_alphabet c"
  shows "normalized UC n = n"
proof -
  have "32 \<notin> set n" "61 \<notin> set n" "\<forall>c\<in>set n. c < 97 \<or> (122 < c \<and> c < 128)"
    using assms by (auto simp: in_alphabet_def)
  moreover have "remove_spaces n = n"
    using \<open>32 \<notin> set n\<close> by (auto simp: remove_spaces_def filter_id_conv)
  ultimately show ?thesis
    by (simp add: normalized_def clean_def toUpperCase_upper strip_padding_no_pad)
qed

lemma normalized_ascii_idem:
  assumes "\<forall>c\<in>set text. c < 128"
  shows "normalized UC (normalized UC text) = normalized UC text"
proof -
  define up where "up = (\<lambda>c::nat. if 97 \<le> c \<and> c \<le> 122 then c - 32 else c)"
  define t where "t = map up (remove_spaces text)"
  have n: "normalized UC text = strip_padding t"
    using assms
    by (simp add: normalized_def clean_def t_def up_def toUpperCase_ascii remove_spaces_def)
  have t: "\<forall>c\<in>set t. c \<noteq> 32 \<and> (c < 97 \<or> (122 < c \<and> c < 128))"
    using assms by (auto simp: t_def up_def remove_spaces_def)
  then have s: "\<forall>c\<in>set (strip_padding t). c \<noteq> 32 \<and> (c < 97 \<or> (122 < c \<and> c < 128))"
    using set_strip_padding [of t] by blast
  have "remove_spaces (strip_padding t) = strip_padding t"
    using s by (simp add: remove_spaces_def filter_id_conv)
  moreover have "toUpperCase UC (strip_padding t) = strip_padding t"
    using s by (intro toUpperCase_upper) blast
  ultimately have "normalized UC (strip_padding t) = strip_padding t"
    by (simp add: normalized_def clean_def strip_padding_idem)
  then show ?thesis
    by (simp only: n)
qed

lemma TOTP_new_unfold:
  "TOTP_new UC text =
     (case decode_loop (normalized UC text) 0 0 [] of
        Inl e \<Rightarrow> Inl e
      | Inr bytes \<Rightarrow>
          Inr \<lparr>secret = Uint8Array bytes, period = 30, digits = 6, algorithm = js ''SHA-1''\<rparr>)"
  by (simp add: TOTP_new_def base32ToBytes_def normalized_def split: sum.splits)

lemma TOTP_new_same_normalized:
  "normalized UC a = normalized UC b \<Longrightarrow> TOTP_new UC a = TOTP_new UC b"
  by (simp add: TOTP_new_unfold)

lemma TOTP_new_error:
  "TOTP_new UC text = Inl e \<longleftrightarrow>
     e = InvalidEncoding \<and> (\<exists>c\<in>set (normalized UC text). \<not> in_alphabet c)"
proof
  assume "TOTP_new UC text = Inl e"
  then have "decode_loop (normalized UC text) 0 0 [] = Inl e"
    by (simp add: TOTP_new_unfold split: sum.splits)
  then show "e = InvalidEncoding \<and> (\<exists>c\<in>set (normalized UC text). \<not> in_alphabet c)"
    by (rule decode_loop_error)
next
  assume "e = InvalidEncoding \<and> (\<exists>c\<in>set (normalized UC text). \<not> in_alphabet c)"
  then show "TOTP_new UC text = Inl e"
    by (simp add: TOTP_new_unfold decode_loop_invalid)
qed

lemma TOTP_new_success:
  assumes "\<forall>c\<in>set (normalized UC text). in_alphabet c"
  shows "TOTP_new UC text =
           Inr \<lparr>secret = reference_decode 0 0 (normalized UC text), period = 30, digits = 6,
                algorithm = js ''SHA-1''\<rparr>"
proof -
  obtain bs where "decode_loop (normalized UC text) 0 0 [] = Inr bs"
    and "Uint8Array bs = Uint8Array [] @ reference_decode 0 0 (normalized UC text)"
    using decode_loop_reference [OF assms, of 0 0 0 "[]"] by auto
  then show ?thesis
    by (simp add: TOTP_new_unfold Uint8Array_def)
qed

lemma normalized_scenario:
  "normalized no_mapping (js ''jbsw y3dp ehpk 3pxp=='') = js ''JBSWY3DPEHPK3PXP''"
  by (simp add: normalized_def normal_form_defs)

subsection \<open>What the constructor rejects\<close>

text \<open>
  Claim C5, as the code has it. The constructor fails exactly when the loop of
  \<open>base32ToBytes\<close> meets a symbol outside the alphabet in the normalized text, and the
  failure is \<open>InvalidEncoding\<close>. It has no check of the length: whatever bytes
  \<open>base32ToBytes\<close> returns become the secret, also when there are none.
\<close>

theorem TOTP_new_failure:
  "(TOTP_new UC text = Inl e \<longleftrightarrow>
       e = InvalidEncoding \<and> (\<exists>c\<in>set (normalized UC text). \<not> in_alphabet c))
   \<and> (base32ToBytes UC (remove_spaces text) = Inr bytes \<longrightarrow>
        TOTP_new UC text
          = Inr \<lparr>secret = bytes, period = 30, digits = 6, algorithm = js ''SHA-1''\<rparr>)"
  by (simp add: TOTP_new_error) (simp add: TOTP_new_def)

theorem TOTP_new_failure_witness:
  "TOTP_new no_mapping (js ''1'') = Inl InvalidEncoding
   \<and> base32ToBytes no_mapping (remove_spaces (js ''A'')) = Inr []
   \<and> TOTP_new no_mapping (js ''A'')
        = Inr \<lparr>secret = [], period = 30, digits = 6, algorithm = js ''SHA-1''\<rparr>"
proof -
  have a: "\<exists>c\<in>set (normalized no_mapping (js ''1'')). \<not> in_alphabet c"
    by (simp add: normalized_def normal_form_defs in_alphabet_def)
  have b: "base32ToBytes no_mapping (remove_spaces (js ''A'')) = Inr []"
    by (simp add: base32ToBytes_def normal_form_defs alphabet_def Uint8Array_def)
  show ?thesis
    using a b TOTP_new_failure [of no_mapping "js ''1''" InvalidEncoding]
      TOTP_new_failure [of no_mapping "js ''A''" _ "[]"]
    by simp
qed

text \<open>
  The claim itself fails on the empty text: it decodes to zero bytes, and the constructor
  returns a generator with an empty secret instead of \<open>InvalidEncoding\<close>.
\<close>

theorem TOTP_new_empty_counterexample:
  "base32ToBytes no_mapping [] = Inr []
   \<and> TOTP_new no_mapping []
       = Inr \<lparr>secret = [], period = 30, digits = 6, algorithm = js ''SHA-1''\<rparr>"
  by (simp add: TOTP_new_def base32ToBytes_def normal_form_defs Uint8Array_def)

subsection \<open>Normalization before decoding\<close>

text \<open>
  Claim C6, as the code has it. The decoder runs over the normalized text: the constructor
  deletes every space U+0020 (and no other white space), \<open>base32ToBytes\<close> upper-cases
  the text and strips the \<open>=\<close> at its end. Whenever the normalized text consists of
  alphabet symbols, constructing from the text and from its normalized form succeed with
  the same bytes, those of the reference decoder. For an ASCII text the normalized form
  is given in closed form, and the text and its normalized form always construct alike.
\<close>

theorem TOTP_new_normalized:
  "TOTP_new UC text =
     (case decode_loop (normalized UC text) 0 0 [] of
        Inl e \<Rightarrow> Inl e
      | Inr bytes \<Rightarrow>
          Inr \<lparr>secret = Uint8Array bytes, period = 30, digits = 6, algorithm = js ''SHA-1''\<rparr>)
   \<and> ((\<forall>c\<in>set (normalized UC text). in_alphabet c) \<longrightarrow>
         TOTP_new UC (normalized UC text) = TOTP_new UC text
         \<and> TOTP_new UC text =
             Inr \<lparr>secret = reference_decode 0 0 (normalized UC text), period = 30, digits = 6,
                  algorithm = js ''SHA-1''\<rparr>)
   \<and> ((\<forall>c\<in>set text. c < 128) \<longrightarrow>
         normalized UC text
           = strip_padding (map (\<lambda>c. if 97 \<le> c \<and> c \<le> 122 then c - 32 else c)
               (filter (\<lambda>c. c \<noteq> 32) text))
         \<and> TOTP_new UC (normalized UC text) = TOTP_new UC text)"
proof (intro conjI impI)
  show "TOTP_new UC text =
     (case decode_loop (normalized UC text) 0 0 [] of
        Inl e \<Rightarrow> Inl e
      | Inr bytes \<Rightarrow>
          Inr \<lparr>secret = Uint8Array bytes, period = 30, digits = 6, algorithm = js ''SHA-1''\<rparr>)"
    by (rule TOTP_new_unfold)
next
  assume a: "\<forall>c\<in>set (normalized UC text). in_alphabet c"
  then have "normalized UC (normalized UC text) = normalized UC text"
    by (rule normalized_alphabet_fixed)
  then show "TOTP_new UC (normalized UC text) = TOTP_new UC text"
    by (rule TOTP_new_same_normalized)
  show "TOTP_new UC text =
             Inr \<lparr>secret = reference_decode 0 0 (normalized UC text), period = 30, digits = 6,
                  algorithm = js ''SHA-1''\<rparr>"
    using a by (rule TOTP_new_success)
next
  assume a: "\<forall>c\<in>set text. c < 128"
  then have "\<forall>c\<in>set (remove_spaces text). c < 128"
    by (simp add: remove_spaces_def)
  then show "normalized UC text
           = strip_padding (map (\<lambda>c. if 97 \<le> c \<and> c \<le> 122 then c - 32 else c)
               (filter (\<lambda>c. c \<noteq> 32) text))"
    by (simp add: normalized_def clean_def toUpperCase_ascii) (simp add: remove_spaces_def)
  have "normalized UC (normalized UC text) = normalized UC text"
    using a by (rule normalized_ascii_idem)
  then show "TOTP_new UC (normalized UC text) = TOTP_new UC text"
    by (rule TOTP_new_same_normalized)
qed

theorem TOTP_new_normalized_witness:
  "list_all in_alphabet (normalized no_mapping (js ''jbsw y3dp ehpk 3pxp==''))
   \<and> list_all (\<lambda>c. c < 128) (js ''jbsw y3dp ehpk 3pxp=='')
   \<and> normalized no_mapping (js ''jbsw y3dp ehpk 3pxp=='') = js ''JBSWY3DPEHPK3PXP''
   \<and> TOTP_new no_mapping (js ''JBSWY3DPEHPK3PXP'')
       = TOTP_new no_mapping (js ''jbsw y3dp ehpk 3pxp=='')
   \<and> TOTP_new no_mapping (js ''jbsw y3dp ehpk 3pxp=='')
       = Inr \<lparr>secret = [72, 101, 108, 108, 111, 33, 222, 173, 190, 239], period = 30,
              digits = 6, algorithm = js ''SHA-1''\<rparr>"
proof -
  have a: "\<forall>c\<in>set (normalized no_mapping (js ''jbsw y3dp ehpk 3pxp=='')). in_alphabet c"
    unfolding normalized_scenario by (simp add: js_def in_alphabet_def)
  have b: "\<forall>c\<in>set (js ''jbsw y3dp ehpk 3pxp==''). c < 128"
    by (simp add: js_def)
  have c: "TOTP_new no_mapping (normalized no_mapping (js ''jbsw y3dp ehpk 3pxp==''))
             = TOTP_new no_mapping (js ''jbsw y3dp ehpk 3pxp=='')
           \<and> TOTP_new no_mapping (js ''jbsw y3dp ehpk 3pxp=='')
             = Inr \<lparr>secret = reference_decode 0 0
                      (normalized no_mapping (js ''jbsw y3dp ehpk 3pxp=='')),
                    period = 30, digits = 6, algorithm = js ''SHA-1''\<rparr>"
    using a TOTP_new_normalized [of no_mapping "js ''jbsw y3dp ehpk 3pxp==''"] by blast
  have d: "list_all in_alphabet (normalized no_mapping (js ''jbsw y3dp ehpk 3pxp==''))"
    "list_all (\<lambda>c. c < 128) (js ''jbsw y3dp ehpk 3pxp=='')"
    using a b by (simp_all only: list_all_iff)
  show ?thesis
    using c d unfolding normalized_scenario reference_decode_scenario by blast
qed

text \<open>
  The claim itself fails on a text with a tab (U+0009): without its white space the text is
  \<open>AA\<close>, which decodes to one byte, but the constructor keeps the tab and the decoder
  throws.
\<close>

theorem TOTP_new_tab_counterexample:
  "TOTP_new no_mapping [65, 9, 65] = Inl InvalidEncoding
   \<and> TOTP_new no_mapping [65, 65]
       = Inr \<lparr>secret = [0], period = 30, digits = 6, algorithm = js ''SHA-1''\<rparr>"
  by (simp add: TOTP_new_def base32ToBytes_def normal_form_defs alphabet_def
      js_or_def js_shl_def js_and_def js_sar_def ToInt32_def Uint8Array_def)

section \<open>Properties of the generator\<close>

subsection \<open>The counter message\<close>

lemma length_be_bytes: "length (be_bytes n x) = n"
  by (induction n arbitrary: x) simp_all

lemma be_bytes_eq_iff: "be_bytes n x = be_bytes n y \<longleftrightarrow> x mod 256 ^ n = y mod 256 ^ n"
proof (induction n arbitrary: x y)
  case 0
  then show ?case by simp
next
  case (Suc n)
  have w: "(word_of_int x :: u8) = word_of_int y \<longleftrightarrow> x mod 256 = y mod 256"
    by (simp add: word_of_int_eq_iff take_bit_eq_mod)
  have split: "z mod 256 ^ Suc n = 256 * (z div 256 mod 256 ^ n) + z mod 256" for z :: int
    using zmod_zmult2_eq [of "256 ^ n" z 256] by simp
  have "x mod 256 ^ Suc n = y mod 256 ^ Suc n
          \<longleftrightarrow> x div 256 mod 256 ^ n = y div 256 mod 256 ^ n \<and> x mod 256 = y mod 256"
  proof
    assume a: "x mod 256 ^ Suc n = y mod 256 ^ Suc n"
    have "(x mod 256 ^ Suc n) mod 256 = x mod 256" "(y mod 256 ^ Suc n) mod 256 = y mod 256"
      by (simp_all add: mod_mod_cancel)
    then have m: "x mod 256 = y mod 256" using a by simp
    then show "x div 256 mod 256 ^ n = y div 256 mod 256 ^ n \<and> x mod 256 = y mod 256"
      using a by (simp only: split) simp
  next
    assume "x div 256 mod 256 ^ n = y div 256 mod 256 ^ n \<and> x mod 256 = y mod 256"
    then show "x mod 256 ^ Suc n = y mod 256 ^ Suc n"
      by (simp only: split)
  qed
  then show ?case
    using Suc.IH [of "x div 256" "y div 256"] w by (simp add: length_be_bytes)
qed

lemma be_bytes_zero: "be_bytes n 0 = replicate n 0"
  by (induction n) (simp_all add: replicate_append_same)

lemma be_bytes_add: "be_bytes (m + n) x = be_bytes m (x div 256 ^ n) @ be_bytes n x"
proof (induction n arbitrary: x)
  case 0
  then show ?case by simp
next
  case (Suc n)
  have "x div 256 div 256 ^ n = x div 256 ^ Suc n"
    by (simp add: zdiv_zmult2_eq)
  then show ?case
    using Suc.IH [of "x div 256"] by simp
qed

lemma be_bytes_4:
  "be_bytes 4 x = [word_of_int (drop_bit 24 x), word_of_int (drop_bit 16 x),
                   word_of_int (drop_bit 8 x), word_of_int x]"
proof -
  have a: "x div 256 div 256 = x div 65536"
    using zdiv_zmult2_eq [of 256 x 256] by simp
  have b: "x div 65536 div 256 = x div 16777216"
    using zdiv_zmult2_eq [of 256 x 65536] by simp
  have "be_bytes (Suc (Suc (Suc (Suc 0)))) x
          = [word_of_int (x div 16777216), word_of_int (x div 65536),
             word_of_int (x div 256), word_of_int x]"
    by (simp add: a b)
  then show ?thesis
    by (simp add: numeral_eq_Suc drop_bit_eq_div)
qed

lemma message_eq: "message c = Inr (replicate 4 0 @ be_bytes 4 (c mod 2 ^ 32))"
  by (simp add: message_def setUint32_def ArrayBuffer_def ToUint32_def be_bytes_4
      take_bit_eq_mod Let_def)
    (simp add: numeral_eq_Suc)

lemma message_wrap: "message (c + 2 ^ 32) = message c"
  by (simp add: message_eq)

lemma message_is_encoding:
  "(\<exists>m. message c = Inr m \<and> big_endian_8 c = Some m) \<longleftrightarrow> 0 \<le> c \<and> c < 2 ^ 32"
proof
  assume "\<exists>m. message c = Inr m \<and> big_endian_8 c = Some m"
  then have c: "0 \<le> c" "c < 2 ^ 64"
    and eq: "be_bytes 8 c = replicate 4 0 @ be_bytes 4 (c mod 2 ^ 32)"
    by (auto simp: message_eq big_endian_8_def split: if_splits)
  have "be_bytes 8 c = be_bytes 4 (c div 2 ^ 32) @ be_bytes 4 c"
    using be_bytes_add [of 4 4 c] by simp
  then have "be_bytes 4 (c div 2 ^ 32) = be_bytes 4 0"
    using eq by (simp add: length_be_bytes be_bytes_zero)
  then have "(c div 2 ^ 32) mod 2 ^ 32 = 0"
    by (simp add: be_bytes_eq_iff)
  moreover have "c div 2 ^ 32 < 2 ^ 32" "0 \<le> c div 2 ^ 32"
    using c by (simp_all add: div_less_iff_less_mult pos_imp_zdiv_nonneg_iff)
  ultimately have "c div 2 ^ 32 = 0" by simp
  then show "0 \<le> c \<and> c < 2 ^ 32"
    using c(1) by (simp add: div_eq_0_iff) 
next
  assume c: "0 \<le> c \<and> c < 2 ^ 32"
  then have "c div 2 ^ 32 = 0" "c mod 2 ^ 32 = c" by simp_all
  then have "be_bytes 8 c = replicate 4 0 @ be_bytes 4 (c mod 2 ^ 32)"
    using be_bytes_add [of 4 4 c] by (simp add: be_bytes_zero)
  then show "\<exists>m. message c = Inr m \<and> big_endian_8 c = Some m"
    using c by (simp add: message_eq big_endian_8_def)
qed

lemma floor_ms: "\<lfloor>real_of_int now / 1000 / 30\<rfloor> = now div 30000"
proof -
  have "real_of_int now / 1000 / 30 = real_of_int now / real_of_int 30000"
    by simp
  then show ?thesis
    by (simp only: floor_divide_of_int_eq)
qed

subsection \<open>The four bytes of the truncation\<close>

text \<open>
  Each operand of \<^verbatim>\<open>|\<close> is non-negative and below \<open>2^31\<close>, and the operands have no bit
  in common: the result is their sum, and ToInt32 changes nothing.
\<close>

lemma js_and_mask:
  assumes "n \<le> 31"
  shows "js_and x (mask n) = x mod 2 ^ n"
proof -
  have "(mask n :: int) < 2 ^ n" by (simp add: mask_eq_exp_minus_1)
  also have "(2::int) ^ n \<le> 2 ^ 31" using assms by (intro power_increasing) simp_all
  finally have "ToInt32 (mask n) = mask n"
    by (intro ToInt32_small) simp_all
  then have "js_and x (mask n) = take_bit n (ToInt32 x)"
    by (simp add: js_and_def take_bit_eq_mask)
  also have "\<dots> = take_bit n x"
    using assms by (simp add: take_bit_ToInt32)
  finally show ?thesis
    by (simp add: take_bit_eq_mod)
qed

lemma js_and_consts:
  "js_and x 0xf = x mod 16" "js_and x 0x7f = x mod 128" "js_and x 0xff = x mod 256"
  using js_and_mask [of 4 x] js_and_mask [of 7 x] js_and_mask [of 8 x]
  by (simp_all add: mask_eq_exp_minus_1)

lemma js_shl_small:
  assumes "0 \<le> a" "a * 2 ^ n < 2 ^ 31" "n < 32"
  shows "js_shl a n = a * 2 ^ n"
proof -
  have "a \<le> a * 2 ^ n" using assms(1) by (simp add: mult_le_cancel_left1)
  then have "ToInt32 a = a" using assms by (intro ToInt32_small) simp_all
  then show ?thesis
    using assms by (simp add: js_shl_def push_bit_eq_mult ToInt32_small)
qed

lemma js_or_small:
  assumes "0 \<le> a" "a * 2 ^ n + r < 2 ^ 31" "0 \<le> r" "r < 2 ^ n"
  shows "js_or (a * 2 ^ n) r = a * 2 ^ n + r"
proof -
  have "0 \<le> a * 2 ^ n" using assms(1) by simp
  then have "a * 2 ^ n < 2 ^ 31" "r < 2 ^ 31" using assms(2,3) by linarith+
  then have "ToInt32 (a * 2 ^ n) = a * 2 ^ n" "ToInt32 r = r"
    using assms \<open>0 \<le> a * 2 ^ n\<close> by (simp_all add: ToInt32_small)
  then show ?thesis
    using push_bit_or_add [of r n a] assms by (simp add: js_or_def push_bit_eq_mult)
qed

lemma assemble:
  assumes "0 \<le> A" "A < 128" "0 \<le> B" "B < 256" "0 \<le> C" "C < 256" "0 \<le> D" "D < 256"
  shows "js_or (js_or (js_or (js_shl A 24) (js_shl B 16)) (js_shl C 8)) D
           = A * 2 ^ 24 + B * 2 ^ 16 + C * 2 ^ 8 + D"
proof -
  have s: "js_shl A 24 = A * 2 ^ 24" "js_shl B 16 = B * 2 ^ 16" "js_shl C 8 = C * 2 ^ 8"
    using assms by (simp_all add: js_shl_small)
  have 1: "js_or (A * 2 ^ 24) (B * 2 ^ 16) = (A * 2 ^ 8 + B) * 2 ^ 16"
    using js_or_small [of A 24 "B * 2 ^ 16"] assms by (simp add: algebra_simps)
  have 2: "js_or ((A * 2 ^ 8 + B) * 2 ^ 16) (C * 2 ^ 8) = (A * 2 ^ 16 + B * 2 ^ 8 + C) * 2 ^ 8"
    using js_or_small [of "A * 2 ^ 8 + B" 16 "C * 2 ^ 8"] assms by (simp add: algebra_simps)
  have 3: "js_or ((A * 2 ^ 16 + B * 2 ^ 8 + C) * 2 ^ 8) D
             = A * 2 ^ 24 + B * 2 ^ 16 + C * 2 ^ 8 + D"
    using js_or_small [of "A * 2 ^ 16 + B * 2 ^ 8 + C" 8 D] assms by (simp add: algebra_simps)
  show ?thesis
    by (simp only: s 1 2 3)
qed

lemma binCode_value:
  "binCode hmac =
     (let offset = truncation_offset hmac
      in (operand (element hmac offset) mod 128) * 2 ^ 24
           + (operand (element hmac (offset + 1)) mod 256) * 2 ^ 16
           + (operand (element hmac (offset + 2)) mod 256) * 2 ^ 8
           + operand (element hmac (offset + 3)) mod 256)"
  unfolding binCode_def Let_def js_and_consts
  by (rule assemble) simp_all

lemma binCode_range: "0 \<le> binCode hmac \<and> binCode hmac < 2 ^ 31"
proof -
  have "0 \<le> a mod 128 * 2 ^ 24 + b mod 256 * 2 ^ 16 + c mod 256 * 2 ^ 8 + d mod 256
        \<and> a mod 128 * 2 ^ 24 + b mod 256 * 2 ^ 16 + c mod 256 * 2 ^ 8 + d mod 256 < 2 ^ 31"
    for a b c d :: int
  proof -
    have "0 \<le> a mod 128" "a mod 128 < 128" "0 \<le> b mod 256" "b mod 256 < 256"
      "0 \<le> c mod 256" "c mod 256 < 256" "0 \<le> d mod 256" "d mod 256 < 256"
      by simp_all
    then show ?thesis by simp
  qed
  then show ?thesis
    by (simp only: binCode_value Let_def)
qed

subsection \<open>Formatting\<close>

lemma fixed_decimal_zero: "fixed_decimal k 0 = replicate k 48"
  by (induction k) (simp_all add: replicate_append_same)

lemma length_fixed_decimal: "length (fixed_decimal k v) = k"
  by (induction k arbitrary: v) simp_all

lemma digits_fixed_decimal: "c \<in> set (fixed_decimal k v) \<Longrightarrow> 48 \<le> c \<and> c \<le> 57"
proof (induction k arbitrary: v)
  case 0
  then show ?case by simp
next
  case (Suc k)
  have "v mod 10 < 10" by simp
  then show ?case using Suc by auto
qed

lemma pad_decimal:
  "n < 10 ^ Suc k \<Longrightarrow>
     length (decimal n) \<le> Suc k
     \<and> replicate (Suc k - length (decimal n)) 48 @ decimal n = fixed_decimal (Suc k) n"
proof (induction k arbitrary: n)
  case 0
  then show ?case by (simp add: decimal.simps [of n])
next
  case (Suc k)
  show ?case
  proof (cases "n < 10")
    case True
    then show ?thesis
      by (simp add: decimal.simps [of n] fixed_decimal_zero replicate_append_same)
  next
    case False
    have "n div 10 < 10 ^ Suc k" using Suc.prems by (simp add: less_mult_imp_div_less)
    from Suc.IH [OF this]
    have l: "length (decimal (n div 10)) \<le> Suc k"
      and p: "replicate (Suc k - length (decimal (n div 10))) 48 @ decimal (n div 10)
                = fixed_decimal (Suc k) (n div 10)"
      by simp_all
    have d: "decimal n = decimal (n div 10) @ [48 + n mod 10]"
      using False by (simp add: decimal.simps [of n])
    have "replicate (Suc (Suc k) - length (decimal n)) 48 @ decimal n
            = (replicate (Suc k - length (decimal (n div 10))) 48 @ decimal (n div 10))
                @ [48 + n mod 10]"
      by (simp add: d)
    then show ?thesis
      using l by (simp only: p) (simp add: d)
  qed
qed

lemma padStart_decimal:
  assumes "n < 10 ^ 6"
  shows "padStart (decimal n) 6 48 = fixed_decimal 6 n"
proof -
  have s: "Suc 5 = 6" by simp
  have "length (decimal n) \<le> 6
        \<and> replicate (6 - length (decimal n)) 48 @ decimal n = fixed_decimal 6 n"
    using pad_decimal [of n 5] assms unfolding s by simp
  then show ?thesis
    by (cases "length (decimal n) = 6") (auto simp: padStart_def)
qed

lemma fixed_decimal_6:
  "fixed_decimal 6 v =
     [48 + v div 100000 mod 10, 48 + v div 10000 mod 10, 48 + v div 1000 mod 10,
      48 + v div 100 mod 10, 48 + v div 10 mod 10, 48 + v mod 10]"
proof -
  have s: "(6::nat) = Suc (Suc (Suc (Suc (Suc (Suc 0)))))" by simp
  show ?thesis
    unfolding s by (simp add: div_mult2_eq [symmetric])
qed

lemma dynamic_truncation_value:
  assumes "digits g = 6"
  shows "dynamic_truncation g hmac = fixed_decimal 6 (nat (binCode hmac mod 10 ^ 6))"
proof -
  have b: "0 \<le> binCode hmac" using binCode_range by simp
  then have r: "js_rem (binCode hmac) (10 ^ 6) = binCode hmac mod 10 ^ 6"
    by (cases "binCode hmac = 0") (simp_all add: js_rem_def)
  have "0 \<le> binCode hmac mod 10 ^ 6" "binCode hmac mod 10 ^ 6 < 10 ^ 6"
    by simp_all
  then have "nat (binCode hmac mod 10 ^ 6) < 10 ^ 6"
    by (simp add: nat_less_iff)
  then have "padStart (decimal (nat (binCode hmac mod 10 ^ 6))) 6 48
               = fixed_decimal 6 (nat (binCode hmac mod 10 ^ 6))"
    by (rule padStart_decimal)
  moreover have "\<not> binCode hmac mod 10 ^ 6 < 0"
    by simp
  ultimately show ?thesis
    unfolding dynamic_truncation_def Let_def assms r toString_def by simp
qed

lemma truncation_offset_20:
  assumes "length hmac = 20"
  shows "truncation_offset hmac = int (unat (hmac ! 19) mod 16)"
  using assms
  by (simp add: truncation_offset_def element_def operand_def js_and_consts zmod_int)

lemma element_in_range:
  "i < length hmac \<Longrightarrow> element hmac (int i) = Some (uint (hmac ! i))"
  by (simp add: element_def)

lemma binCode_reference:
  assumes "length hmac = 20"
  shows "binCode hmac = int (reference_binCode hmac)"
proof -
  define o' where "o' = unat (hmac ! 19) mod 16"
  have o: "o' < 16" by (simp add: o'_def)
  have e: "element hmac (int o' + int k) = Some (uint (hmac ! (o' + k)))" if "k < 4" for k
    using o assms that element_in_range [of "o' + k" hmac] by simp
  have e: "element hmac (int o') = Some (uint (hmac ! o'))"
    "element hmac (int o' + 1) = Some (uint (hmac ! (o' + 1)))"
    "element hmac (int o' + 2) = Some (uint (hmac ! (o' + 2)))"
    "element hmac (int o' + 3) = Some (uint (hmac ! (o' + 3)))"
    using e [of 0] e [of 1] e [of 2] e [of 3] by simp_all
  have u: "uint w mod 256 = uint w" for w :: u8
    using uint_bounded [of w] by simp
  show ?thesis
    unfolding binCode_value truncation_offset_20 [OF assms] reference_binCode_def Let_def
      o'_def [symmetric] e operand_def
    by (simp add: u zmod_int)
qed

lemma TOTP_new_fields:
  "TOTP_new UC text = Inr g \<Longrightarrow> period g = 30 \<and> digits g = 6 \<and> algorithm g = js ''SHA-1''"
  by (auto simp: TOTP_new_def split: sum.splits)

lemma generate_counter_30:
  assumes "period g = 30"
  shows "generate sign g now = generateOTP sign g (now div 30000)"
proof -
  have "real_of_int (period g) = 30" using assms by simp
  then have "generate sign g now = generateOTP sign g \<lfloor>real_of_int now / 1000 / 30\<rfloor>"
    by (simp only: generate_def)
  then show ?thesis
    by (simp only: floor_ms)
qed

lemma generateOTP_digits:
  assumes "digits g = 6" and "generateOTP sign g c = Inr code"
  shows "length code = 6 \<and> (\<forall>ch\<in>set code. 48 \<le> ch \<and> ch \<le> 57)"
proof -
  obtain hmac where "code = dynamic_truncation g hmac"
    using assms(2) by (auto simp: generateOTP_def split: sum.splits option.splits)
  then have "code = fixed_decimal 6 (nat (binCode hmac mod 10 ^ 6))"
    using assms(1) by (simp add: dynamic_truncation_value)
  then show ?thesis
    using digits_fixed_decimal by (simp add: length_fixed_decimal)
qed

lemma rfc4226_secret:
  "TOTP_new no_mapping (js ''GEZDGNBVGY3TQOJQGEZDGNBVGY3TQOJQ'')
     = Inr \<lparr>secret = rfc4226_key, period = 30, digits = 6, algorithm = js ''SHA-1''\<rparr>"
proof -
  have n: "normalized no_mapping (js ''GEZDGNBVGY3TQOJQGEZDGNBVGY3TQOJQ'')
             = js ''GEZDGNBVGY3TQOJQGEZDGNBVGY3TQOJQ''"
    by (simp add: normalized_def normal_form_defs)
  have a: "\<forall>c\<in>set (js ''GEZDGNBVGY3TQOJQGEZDGNBVGY3TQOJQ''). in_alphabet c"
    by (simp add: js_def in_alphabet_def)
  have r: "reference_decode 0 0 (js ''GEZDGNBVGY3TQOJQGEZDGNBVGY3TQOJQ'') = rfc4226_key"
    by (simp add: js_def rfc4648_value_def rfc4226_key_def)
  show ?thesis
    using TOTP_new_success [of no_mapping "js ''GEZDGNBVGY3TQOJQGEZDGNBVGY3TQOJQ''"] a
    by (simp only: n r)
qed

lemma message_bytes:
  "message c =
     Inr [0, 0, 0, 0, word_of_int (drop_bit 24 (c mod 2 ^ 32)),
          word_of_int (drop_bit 16 (c mod 2 ^ 32)), word_of_int (drop_bit 8 (c mod 2 ^ 32)),
          word_of_int (c mod 2 ^ 32)]"
proof -
  have "replicate 4 (0 :: u8) = [0, 0, 0, 0]"
    by (simp add: numeral_eq_Suc)
  then show ?thesis
    by (simp only: message_eq be_bytes_4) simp
qed

lemma big_endian_8_bytes:
  "0 \<le> c \<Longrightarrow> c < 2 ^ 64 \<Longrightarrow>
     big_endian_8 c =
       Some [word_of_int (drop_bit 24 (c div 2 ^ 32)), word_of_int (drop_bit 16 (c div 2 ^ 32)),
             word_of_int (drop_bit 8 (c div 2 ^ 32)), word_of_int (c div 2 ^ 32),
             word_of_int (drop_bit 24 c), word_of_int (drop_bit 16 c),
             word_of_int (drop_bit 8 c), word_of_int c]"
  using be_bytes_add [of 4 4 c] by (simp add: big_endian_8_def be_bytes_4)

lemma message_0_1:
  "message 0 = Inr [0, 0, 0, 0, 0, 0, 0, 0]" "message 1 = Inr [0, 0, 0, 0, 0, 0, 0, 1]"
  by (simp_all add: message_bytes)

subsection \<open>The emitted code\<close>

text \<open>
  Claim C1. For a generator built by the constructor and a counter whose message the
  HMAC signs into a digest of 20 bytes, \<open>generateOTP\<close> returns the code of the reference:
  with the offset \<open>digest[19] & 0x0F\<close> and \<open>binCode\<close> the four bytes from the offset on,
  big-endian, the top bit masked (a number below \<open>2^31\<close>), the code is \<open>binCode mod 10^6\<close>
  in decimal, padded with zeros on the left to six characters, all of them ASCII digits.
\<close>

theorem generateOTP_reference:
  assumes "TOTP_new UC text = Inr g"
    and "message c = Inr msg"
    and "sign (algorithm g) (secret g) msg = Some digest"
    and "length digest = 20"
  shows "generateOTP sign g c = Inr (reference_code digest)
         \<and> reference_binCode digest < 2 ^ 31
         \<and> length (reference_code digest) = 6
         \<and> (\<forall>ch\<in>set (reference_code digest). 48 \<le> ch \<and> ch \<le> 57)"
proof -
  have d: "digits g = 6" using assms(1) by (simp add: TOTP_new_fields)
  have b: "binCode digest = int (reference_binCode digest)"
    using assms(4) by (rule binCode_reference)
  have "nat (binCode digest mod 10 ^ 6) = reference_binCode digest mod 10 ^ 6"
    by (simp add: b nat_mod_distrib)
  then have "dynamic_truncation g digest = reference_code digest"
    using d by (simp add: dynamic_truncation_value reference_code_def)
  then have "generateOTP sign g c = Inr (reference_code digest)"
    using assms(2,3) by (simp add: generateOTP_def)
  moreover have "reference_binCode digest < 2 ^ 31"
    using binCode_range [of digest] b by simp
  ultimately show ?thesis
    using digits_fixed_decimal by (simp add: reference_code_def length_fixed_decimal)
qed

theorem generateOTP_reference_witness:
  "TOTP_new no_mapping (js ''GEZDGNBVGY3TQOJQGEZDGNBVGY3TQOJQ'')
     = Inr \<lparr>secret = rfc4226_key, period = 30, digits = 6, algorithm = js ''SHA-1''\<rparr>
   \<and> message 1 = Inr [0, 0, 0, 0, 0, 0, 0, 1]
   \<and> rfc4226_sign (js ''SHA-1'') rfc4226_key [0, 0, 0, 0, 0, 0, 0, 1]
       = Some [0x75, 0xa4, 0x8a, 0x19, 0xd4, 0xcb, 0xe1, 0x00, 0x64, 0x4e,
               0x8a, 0xc1, 0x39, 0x7e, 0xea, 0x74, 0x7a, 0x2d, 0x33, 0xab]
   \<and> generateOTP rfc4226_sign
         \<lparr>secret = rfc4226_key, period = 30, digits = 6, algorithm = js ''SHA-1''\<rparr> 1
       = Inr (js ''287082'')"
proof -
  define digest :: "u8 list" where
    "digest = [0x75, 0xa4, 0x8a, 0x19, 0xd4, 0xcb, 0xe1, 0x00, 0x64, 0x4e,
               0x8a, 0xc1, 0x39, 0x7e, 0xea, 0x74, 0x7a, 0x2d, 0x33, 0xab]"
  define g where
    "g = \<lparr>secret = rfc4226_key, period = 30, digits = 6, algorithm = js ''SHA-1''\<rparr>"
  have s: "rfc4226_sign (algorithm g) (secret g) [0, 0, 0, 0, 0, 0, 0, 1] = Some digest"
    by (simp add: rfc4226_sign_def g_def digest_def)
  have l: "length digest = 20" by (simp add: digest_def)
  have r: "reference_code digest = js ''287082''"
    by (simp add: reference_code_def reference_binCode_def digest_def js_def fixed_decimal_6)
  have t: "generateOTP rfc4226_sign g 1 = Inr (js ''287082'')"
    using generateOTP_reference [where sign = rfc4226_sign,
        OF rfc4226_secret [folded g_def] message_0_1(2) s l]
    unfolding r by blast
  have s': "rfc4226_sign (js ''SHA-1'') rfc4226_key [0, 0, 0, 0, 0, 0, 0, 1] = Some digest"
    using s by (simp add: g_def)
  show ?thesis
    using t rfc4226_secret message_0_1(2) s'
    unfolding g_def digest_def by blast
qed

text \<open>
  Claim C9. For a digest of 20 bytes the offset is at most 15, so the four reads of the
  truncation are at the positions \<open>offset\<close> to \<open>offset + 3\<close>, at most 18: each of them,
  like the read of the last byte, is inside the digest and gives a byte, never
  \<open>undefined\<close>.
\<close>

theorem truncation_in_bounds:
  assumes "length hmac = 20"
  shows "0 \<le> truncation_offset hmac \<and> truncation_offset hmac \<le> 15
         \<and> truncation_offset hmac + 3 \<le> 18
         \<and> element hmac (int (length hmac) - 1) \<noteq> None
         \<and> element hmac (truncation_offset hmac) \<noteq> None
         \<and> element hmac (truncation_offset hmac + 1) \<noteq> None
         \<and> element hmac (truncation_offset hmac + 2) \<noteq> None
         \<and> element hmac (truncation_offset hmac + 3) \<noteq> None"
proof -
  have "unat (hmac ! 19) mod 16 < 16" by simp
  then have "0 \<le> truncation_offset hmac \<and> truncation_offset hmac \<le> 15"
    unfolding truncation_offset_20 [OF assms] by linarith
  then show ?thesis
    using assms by (simp add: element_def)
qed

theorem truncation_in_bounds_witness:
  "length (replicate 20 (255 :: u8)) = 20
   \<and> truncation_offset (replicate 20 255) = 15
   \<and> element (replicate 20 255) (truncation_offset (replicate 20 255) + 3) = Some 255
   \<and> element (replicate 20 255) (truncation_offset (replicate 20 255) + 3) \<noteq> None"
proof -
  have l: "length (replicate 20 (255 :: u8)) = 20" by simp
  have o: "truncation_offset (replicate 20 255) = 15"
    by (simp add: truncation_offset_20)
  have e: "element (replicate 20 255) 18 = Some 255"
    by (simp add: element_def)
  show ?thesis
    using truncation_in_bounds [OF l] e by (simp add: o)
qed

lemma generateOTP_signs:
  "generateOTP sign g c =
     (case sign (algorithm g) (secret g) (replicate 4 0 @ be_bytes 4 (c mod 2 ^ 32)) of
        None \<Rightarrow> Inl CryptoFailure
      | Some hmac \<Rightarrow> Inr (dynamic_truncation g hmac))"
  by (simp only: generateOTP_def message_eq sum.case)

lemma rfc4226_codes:
  "generateOTP rfc4226_sign
     \<lparr>secret = rfc4226_key, period = p, digits = 6, algorithm = js ''SHA-1''\<rparr> 0
     = Inr (js ''755224'')"
  "generateOTP rfc4226_sign
     \<lparr>secret = rfc4226_key, period = p, digits = 6, algorithm = js ''SHA-1''\<rparr> 1
     = Inr (js ''287082'')"
  by (simp_all add: generateOTP_def message_0_1 rfc4226_sign_def dynamic_truncation_def
      binCode_def truncation_offset_def element_def operand_def js_and_def js_or_def
      js_shl_def js_rem_def ToInt32_def toString_def padStart_def decimal.simps js_def)

text \<open>
  Claim C8. Everything the runtime contributes to a code is one value of the HMAC, the
  signature of the counter message under the secret. Two invocations may differ in the
  generator's period, in what the HMAC returns for any other key or message, and, through
  \<open>generate\<close>, in the clock reading within the time step: with the same secret bytes,
  hash name, digit count and counter, and the same signature of that one message, they
  return the same result. A result that is a code has six characters, all ASCII digits.
\<close>

theorem generateOTP_deterministic:
  assumes "secret g1 = secret g2" and "algorithm g1 = algorithm g2"
    and "digits g1 = digits g2"
    and "message c = Inr m"
    and "sign1 (algorithm g1) (secret g1) m = sign2 (algorithm g1) (secret g1) m"
  shows "generateOTP sign1 g1 c = generateOTP sign2 g2 c
         \<and> (digits g1 = 6 \<and> generateOTP sign1 g1 c = Inr code \<longrightarrow>
              length code = 6 \<and> (\<forall>ch\<in>set code. 48 \<le> ch \<and> ch \<le> 57))
         \<and> (period g1 = 30 \<and> period g2 = 30 \<and> now1 div 30000 = c \<and> now2 div 30000 = c \<longrightarrow>
              generate sign1 g1 now1 = generate sign2 g2 now2)"
proof -
  have t: "dynamic_truncation g1 hmac = dynamic_truncation g2 hmac" for hmac
    using assms(3) by (simp add: dynamic_truncation_def)
  have e: "generateOTP sign1 g1 c = generateOTP sign2 g2 c"
    using assms(1,2,4,5) by (simp add: generateOTP_def t split: option.splits)
  have "generate sign1 g1 now1 = generate sign2 g2 now2"
    if "period g1 = 30 \<and> period g2 = 30 \<and> now1 div 30000 = c \<and> now2 div 30000 = c"
    using that e by (simp add: generate_counter_30)
  moreover have "length code = 6 \<and> (\<forall>ch\<in>set code. 48 \<le> ch \<and> ch \<le> 57)"
    if "digits g1 = 6 \<and> generateOTP sign1 g1 c = Inr code"
    using that generateOTP_digits [of g1 sign1 c code] by blast
  ultimately show ?thesis
    using e by blast
qed

theorem generateOTP_deterministic_witness:
  "message 1 = Inr [0, 0, 0, 0, 0, 0, 0, 1]
   \<and> rfc4226_sign (js ''SHA-1'') rfc4226_key [0, 0, 0, 0, 0, 0, 0, 1]
       = (\<lambda>alg key msg. rfc4226_sign (js ''SHA-1'') rfc4226_key [0, 0, 0, 0, 0, 0, 0, 1])
           (js ''SHA-1'') rfc4226_key [0, 0, 0, 0, 0, 0, 0, 1]
   \<and> generateOTP rfc4226_sign
         \<lparr>secret = rfc4226_key, period = 30, digits = 6, algorithm = js ''SHA-1''\<rparr> 1
       = Inr (js ''287082'')
   \<and> generateOTP (\<lambda>alg key msg. rfc4226_sign (js ''SHA-1'') rfc4226_key [0, 0, 0, 0, 0, 0, 0, 1])
         \<lparr>secret = rfc4226_key, period = 60, digits = 6, algorithm = js ''SHA-1''\<rparr> 1
       = Inr (js ''287082'')
   \<and> length (js ''287082'') = 6
   \<and> generate rfc4226_sign
         \<lparr>secret = rfc4226_key, period = 30, digits = 6, algorithm = js ''SHA-1''\<rparr> 30000
       = generate (\<lambda>alg key msg. rfc4226_sign (js ''SHA-1'') rfc4226_key [0, 0, 0, 0, 0, 0, 0, 1])
         \<lparr>secret = rfc4226_key, period = 30, digits = 6, algorithm = js ''SHA-1''\<rparr> 59999"
proof -
  define g1 where
    "g1 = \<lparr>secret = rfc4226_key, period = 30, digits = 6, algorithm = js ''SHA-1''\<rparr>"
  define g2 where
    "g2 = \<lparr>secret = rfc4226_key, period = 60, digits = 6, algorithm = js ''SHA-1''\<rparr>"
  define sign2 :: hmac_sign where
    "sign2 = (\<lambda>alg key msg. rfc4226_sign (js ''SHA-1'') rfc4226_key [0, 0, 0, 0, 0, 0, 0, 1])"
  have a: "secret g1 = secret g2" "algorithm g1 = algorithm g2" "digits g1 = digits g2"
    "secret g1 = secret g1" "algorithm g1 = algorithm g1" "digits g1 = digits g1"
    by (simp_all add: g1_def g2_def)
  have s: "rfc4226_sign (algorithm g1) (secret g1) [0, 0, 0, 0, 0, 0, 0, 1]
             = sign2 (algorithm g1) (secret g1) [0, 0, 0, 0, 0, 0, 0, 1]"
    by (simp add: g1_def sign2_def)
  have c: "generateOTP rfc4226_sign g1 1 = Inr (js ''287082'')"
    unfolding g1_def by (rule rfc4226_codes)
  note t = generateOTP_deterministic [where ?sign1.0 = rfc4226_sign and ?sign2.0 = sign2
      and code = "js ''287082''", OF a(1,2,3) message_0_1(2) s]
  note u = generateOTP_deterministic [where ?sign1.0 = rfc4226_sign and ?sign2.0 = sign2
      and ?now1.0 = 30000 and ?now2.0 = 59999, OF a(4,5,6) message_0_1(2) s]
  have 1: "generateOTP sign2 g2 1 = Inr (js ''287082'')"
    using t c by simp
  have 2: "length (js ''287082'') = 6"
    using t c by (simp add: g1_def)
  have d: "period g1 = 30 \<and> period g1 = 30 \<and> (30000 :: int) div 30000 = 1
           \<and> (59999 :: int) div 30000 = 1"
    by (simp add: g1_def)
  have 3: "generate rfc4226_sign g1 30000 = generate sign2 g1 59999"
    using u d by blast
  have s': "rfc4226_sign (js ''SHA-1'') rfc4226_key [0, 0, 0, 0, 0, 0, 0, 1]
             = sign2 (js ''SHA-1'') rfc4226_key [0, 0, 0, 0, 0, 0, 0, 1]"
    by (simp add: sign2_def)
  show ?thesis
    using message_0_1(2) s' c 1 2 3 unfolding g1_def g2_def sign2_def by blast
qed

text \<open>
  Claim C10. \<open>generateOTP\<close> signs the message of four zero bytes followed by the
  big-endian encoding of the counter modulo \<open>2^32\<close>, and its result is the truncation of
  that signature; so the counters \<open>c\<close> and \<open>c + 2^32\<close> give the same result for every
  generator and every HMAC. The signed message is the true 8-byte big-endian encoding of
  the counter exactly when the counter lies between 0 and \<open>2^32 - 1\<close>.
\<close>

theorem message_wraps:
  "generateOTP sign g c =
     (case sign (algorithm g) (secret g) (replicate 4 0 @ be_bytes 4 (c mod 2 ^ 32)) of
        None \<Rightarrow> Inl CryptoFailure
      | Some hmac \<Rightarrow> Inr (dynamic_truncation g hmac))
   \<and> message c = Inr (replicate 4 0 @ be_bytes 4 (c mod 2 ^ 32))
   \<and> generateOTP sign g (c + 2 ^ 32) = generateOTP sign g c
   \<and> (big_endian_8 c = Some (replicate 4 0 @ be_bytes 4 (c mod 2 ^ 32))
        \<longleftrightarrow> 0 \<le> c \<and> c < 2 ^ 32)
   \<and> ((\<exists>m. message c = Inr m \<and> big_endian_8 c = Some m) \<longleftrightarrow> 0 \<le> c \<and> c < 2 ^ 32)"
proof -
  have "generateOTP sign g (c + 2 ^ 32) = generateOTP sign g c"
    by (simp only: generateOTP_def message_wrap)
  moreover have "big_endian_8 c = Some (replicate 4 0 @ be_bytes 4 (c mod 2 ^ 32))
                   \<longleftrightarrow> 0 \<le> c \<and> c < 2 ^ 32"
    using message_eq [of c] message_is_encoding [of c] by auto
  ultimately show ?thesis
    using generateOTP_signs [of sign g c] message_eq [of c] message_is_encoding [of c]
    by blast
qed

theorem message_wraps_witness:
  "message (2 ^ 32 + 1) = Inr [0, 0, 0, 0, 0, 0, 0, 1]
   \<and> big_endian_8 (2 ^ 32 + 1) = Some [0, 0, 0, 1, 0, 0, 0, 1]
   \<and> generateOTP rfc4226_sign
         \<lparr>secret = rfc4226_key, period = 30, digits = 6, algorithm = js ''SHA-1''\<rparr>
         (1 + 2 ^ 32)
       = generateOTP rfc4226_sign
         \<lparr>secret = rfc4226_key, period = 30, digits = 6, algorithm = js ''SHA-1''\<rparr> 1
   \<and> generateOTP rfc4226_sign
         \<lparr>secret = rfc4226_key, period = 30, digits = 6, algorithm = js ''SHA-1''\<rparr>
         (1 + 2 ^ 32)
       = Inr (js ''287082'')"
proof -
  define g where
    "g = \<lparr>secret = rfc4226_key, period = 30, digits = 6, algorithm = js ''SHA-1''\<rparr>"
  have a: "message (2 ^ 32 + 1) = Inr [0, 0, 0, 0, 0, 0, 0, 1]"
    by (simp add: message_bytes)
  have b: "big_endian_8 (2 ^ 32 + 1) = Some [0, 0, 0, 1, 0, 0, 0, 1]"
    by (simp add: big_endian_8_bytes)
  have w: "generateOTP rfc4226_sign g (1 + 2 ^ 32) = generateOTP rfc4226_sign g 1"
    using message_wraps [of rfc4226_sign g 1] by blast
  have c: "generateOTP rfc4226_sign g 1 = Inr (js ''287082'')"
    unfolding g_def by (rule rfc4226_codes)
  show ?thesis
    using a b w c unfolding g_def by (simp only:)
qed

text \<open>
  Claim C2, as the code has it. For a generator built by the constructor, \<open>generate\<close> is
  \<open>generateOTP\<close> at the counter \<open>floor(now_seconds / 30)\<close>, where \<open>now_seconds\<close> is the
  clock in milliseconds divided by 1000; the clock enters in no other way, and two clock
  readings with the same counter give the same result. The message that \<open>generate\<close> hands
  to the HMAC is four zero bytes followed by the counter modulo \<open>2^32\<close>, and the result is
  the truncation of its signature; the message is the 8-byte big-endian encoding of the
  counter whenever the counter lies between 0 and \<open>2^32 - 1\<close>.
\<close>

theorem generate_counter:
  assumes "TOTP_new UC text = Inr g"
  shows "generate sign g now = generateOTP sign g \<lfloor>(real_of_int now / 1000) / 30\<rfloor>
         \<and> \<lfloor>(real_of_int now / 1000) / 30\<rfloor> = now div 30000
         \<and> generate sign g now =
             (case sign (algorithm g) (secret g)
                     (replicate 4 0 @ be_bytes 4 (now div 30000 mod 2 ^ 32)) of
                None \<Rightarrow> Inl CryptoFailure
              | Some hmac \<Rightarrow> Inr (dynamic_truncation g hmac))
         \<and> message (now div 30000) = Inr (replicate 4 0 @ be_bytes 4 (now div 30000 mod 2 ^ 32))
         \<and> (0 \<le> now div 30000 \<and> now div 30000 < 2 ^ 32 \<longrightarrow>
              (\<exists>m. message (now div 30000) = Inr m \<and> big_endian_8 (now div 30000) = Some m
                   \<and> take 4 m = replicate 4 0
                   \<and> generate sign g now =
                       (case sign (algorithm g) (secret g) m of
                          None \<Rightarrow> Inl CryptoFailure
                        | Some hmac \<Rightarrow> Inr (dynamic_truncation g hmac))))
         \<and> (now div 30000 = now' div 30000 \<longrightarrow> generate sign g now = generate sign g now')"
proof -
  define m where "m = replicate 4 (0 :: u8) @ be_bytes 4 (now div 30000 mod 2 ^ 32)"
  have p: "period g = 30" using assms by (simp add: TOTP_new_fields)
  have s: "generate sign g now =
             (case sign (algorithm g) (secret g) m of
                None \<Rightarrow> Inl CryptoFailure
              | Some hmac \<Rightarrow> Inr (dynamic_truncation g hmac))"
    using p generateOTP_signs [of sign g "now div 30000"]
    by (simp only: generate_counter_30 m_def)
  have msg: "message (now div 30000) = Inr m"
    by (simp only: message_eq m_def)
  have "\<exists>m. message (now div 30000) = Inr m \<and> big_endian_8 (now div 30000) = Some m
             \<and> take 4 m = replicate 4 0
             \<and> generate sign g now =
                 (case sign (algorithm g) (secret g) m of
                    None \<Rightarrow> Inl CryptoFailure
                  | Some hmac \<Rightarrow> Inr (dynamic_truncation g hmac))"
    if r: "0 \<le> now div 30000 \<and> now div 30000 < 2 ^ 32"
  proof -
    have "big_endian_8 (now div 30000) = Some m"
      using message_is_encoding [of "now div 30000"] r msg by auto
    moreover have "take 4 m = replicate 4 0"
      by (simp add: m_def)
    ultimately show ?thesis
      using msg s by blast
  qed
  moreover have "generate sign g now = generateOTP sign g \<lfloor>(real_of_int now / 1000) / 30\<rfloor>"
    using p by (simp only: generate_counter_30 floor_ms)
  moreover have "generate sign g now = generate sign g now'" if "now div 30000 = now' div 30000"
    using p that by (simp only: generate_counter_30)
  ultimately show ?thesis
    using floor_ms [of now] msg s unfolding m_def by blast
qed

theorem generate_counter_witness:
  "TOTP_new no_mapping (js ''GEZDGNBVGY3TQOJQGEZDGNBVGY3TQOJQ'')
     = Inr \<lparr>secret = rfc4226_key, period = 30, digits = 6, algorithm = js ''SHA-1''\<rparr>
   \<and> \<lfloor>(real_of_int 59000 / 1000) / 30\<rfloor> = 1
   \<and> message 1 = Inr [0, 0, 0, 0, 0, 0, 0, 1]
   \<and> big_endian_8 1 = Some [0, 0, 0, 0, 0, 0, 0, 1]
   \<and> generate rfc4226_sign
         \<lparr>secret = rfc4226_key, period = 30, digits = 6, algorithm = js ''SHA-1''\<rparr> 59000
       = generateOTP rfc4226_sign
         \<lparr>secret = rfc4226_key, period = 30, digits = 6, algorithm = js ''SHA-1''\<rparr> 1
   \<and> generate rfc4226_sign
         \<lparr>secret = rfc4226_key, period = 30, digits = 6, algorithm = js ''SHA-1''\<rparr> 59000
       = Inr (js ''287082'')
   \<and> generate rfc4226_sign
         \<lparr>secret = rfc4226_key, period = 30, digits = 6, algorithm = js ''SHA-1''\<rparr> 59000
       = generate rfc4226_sign
         \<lparr>secret = rfc4226_key, period = 30, digits = 6, algorithm = js ''SHA-1''\<rparr> 30000"
proof -
  define g where
    "g = \<lparr>secret = rfc4226_key, period = 30, digits = 6, algorithm = js ''SHA-1''\<rparr>"
  note t = generate_counter [OF rfc4226_secret [folded g_def], of rfc4226_sign 59000 30000]
  have d: "(59000 :: int) div 30000 = 1" "(59000 :: int) div 30000 = 30000 div 30000"
    by simp_all
  have f: "\<lfloor>(real_of_int 59000 / 1000) / 30\<rfloor> = 1"
    using t d(1) by (simp only:)
  have 1: "generate rfc4226_sign g 59000 = generateOTP rfc4226_sign g 1"
    using t f by (simp only:)
  have 2: "generate rfc4226_sign g 59000 = generate rfc4226_sign g 30000"
    using t d(2) by blast
  have 3: "generate rfc4226_sign g 59000 = Inr (js ''287082'')"
    using 1 rfc4226_codes(2) [of 30] by (simp only: g_def)
  have b: "big_endian_8 1 = Some [0, 0, 0, 0, 0, 0, 0, 1]"
    by (simp add: big_endian_8_bytes)
  show ?thesis
    using rfc4226_secret f message_0_1(2) b 1 2 3 unfolding g_def by blast
qed

text \<open>
  The claim itself fails at the clock reading of \<open>2^32\<close> time steps: the counter is
  \<open>2^32\<close>, whose 8-byte encoding has the byte 1 in its high half, but the message is
  eight zero bytes, and \<open>generate\<close> returns the code of the counter 0.
\<close>

theorem generate_counter_counterexample:
  "\<lfloor>(real_of_int 128849018880000 / 1000) / 30\<rfloor> = 4294967296
   \<and> message 4294967296 = Inr [0, 0, 0, 0, 0, 0, 0, 0]
   \<and> big_endian_8 4294967296 = Some [0, 0, 0, 1, 0, 0, 0, 0]
   \<and> generate rfc4226_sign
         \<lparr>secret = rfc4226_key, period = 30, digits = 6, algorithm = js ''SHA-1''\<rparr>
         128849018880000
       = Inr (js ''755224'')"
proof -
  have "\<lfloor>(real_of_int 128849018880000 / 1000) / 30\<rfloor> = 4294967296"
    using floor_ms [of 128849018880000] by simp
  moreover have "message 4294967296 = Inr [0, 0, 0, 0, 0, 0, 0, 0]"
    by (simp add: message_bytes)
  moreover have "big_endian_8 4294967296 = Some [0, 0, 0, 1, 0, 0, 0, 0]"
    by (simp add: big_endian_8_bytes)
  moreover have "generate rfc4226_sign
         \<lparr>secret = rfc4226_key, period = 30, digits = 6, algorithm = js ''SHA-1''\<rparr>
         128849018880000
       = Inr (js ''755224'')"
  proof -
    have "(128849018880000 :: int) div 30000 = 0 + 2 ^ 32" by simp
    then have "generate rfc4226_sign
         \<lparr>secret = rfc4226_key, period = 30, digits = 6, algorithm = js ''SHA-1''\<rparr>
         128849018880000
       = generateOTP rfc4226_sign
         \<lparr>secret = rfc4226_key, period = 30, digits = 6, algorithm = js ''SHA-1''\<rparr>
         (0 + 2 ^ 32)"
      by (simp only: generate_counter_30 [of _ rfc4226_sign 128849018880000] TOTP.simps)
    also have "\<dots> = generateOTP rfc4226_sign
         \<lparr>secret = rfc4226_key, period = 30, digits = 6, algorithm = js ''SHA-1''\<rparr> 0"
      by (simp only: generateOTP_def message_wrap)
    finally show ?thesis
      by (simp only: rfc4226_codes)
  qed
  ultimately show ?thesis by blast
qed

section \<open>Properties of the URI parser\<close>

lemma decodeURIComponent_plain: "37 \<notin> set s \<Longrightarrow> decodeURIComponent s = Some s"
proof (induction s)
  case Nil
  then show ?case by (simp add: decodeURIComponent.simps)
next
  case (Cons c cs)
  then show ?case
    by (simp add: decodeURIComponent.simps [of "c # cs"] decode_one_def)
qed

lemma decodeURIComponent_FF: "decodeURIComponent (js ''%FF'') = None"
  by (simp add: decodeURIComponent.simps decode_one_def js_def hex_digit_def leading_ones_def)

lemma fromEntries_scenario:
  "fromEntries [(js ''secret'', js ''JBSWY3DPEHPK3PXP''), (js ''issuer'', js ''Example'')]
     (js ''secret'') = Some (js ''JBSWY3DPEHPK3PXP'')"
  "fromEntries [(js ''secret'', js ''JBSWY3DPEHPK3PXP''), (js ''issuer'', js ''Example'')]
     (js ''issuer'') = Some (js ''Example'')"
  "fromEntries [] k = None"
  by (simp_all add: fromEntries_def js_def)

text \<open>
  Claim C7, as the code has it. \<open>parseOtpAuthUrl\<close> succeeds exactly when the URL
  parser accepts the text, the scheme is \<open>otpauth\<close>, the host is \<open>totp\<close> and the path
  after its first character is accepted by \<open>decodeURIComponent\<close>; it then returns the
  decoded path as the label and the \<open>secret\<close> and \<open>issuer\<close> parameters of the query, each of
  them possibly absent. Every failure is an \<open>InvalidUri\<close>, and any other scheme or host
  fails. A path without \<open>%\<close> is its own decoding, so that for such a path the scheme and the
  host decide alone.
\<close>

theorem parseOtpAuthUrl_result:
  "(parseOtpAuthUrl new_URL url = Inr r \<longleftrightarrow>
      (\<exists>u l. new_URL url = Some u \<and> protocol u = js ''otpauth:'' \<and> hostname u = js ''totp''
             \<and> decodeURIComponent (drop 1 (pathname u)) = Some l
             \<and> r = \<lparr>label = l, secret' = fromEntries (searchParams u) (js ''secret''),
                      issuer = fromEntries (searchParams u) (js ''issuer'')\<rparr>))
   \<and> (parseOtpAuthUrl new_URL url = Inl e \<longrightarrow> (\<exists>why. e = InvalidUri why))
   \<and> (new_URL url = Some u \<and> (protocol u \<noteq> js ''otpauth:'' \<or> hostname u \<noteq> js ''totp'') \<longrightarrow>
        (\<exists>why. parseOtpAuthUrl new_URL url = Inl (InvalidUri why)))
   \<and> (new_URL url = Some u \<and> protocol u = js ''otpauth:'' \<and> hostname u = js ''totp''
        \<and> 37 \<notin> set (pathname u) \<longrightarrow>
        parseOtpAuthUrl new_URL url
          = Inr \<lparr>label = drop 1 (pathname u),
                 secret' = fromEntries (searchParams u) (js ''secret''),
                 issuer = fromEntries (searchParams u) (js ''issuer'')\<rparr>)"
proof (intro conjI impI)
  show "parseOtpAuthUrl new_URL url = Inr r \<longleftrightarrow>
      (\<exists>u l. new_URL url = Some u \<and> protocol u = js ''otpauth:'' \<and> hostname u = js ''totp''
             \<and> decodeURIComponent (drop 1 (pathname u)) = Some l
             \<and> r = \<lparr>label = l, secret' = fromEntries (searchParams u) (js ''secret''),
                      issuer = fromEntries (searchParams u) (js ''issuer'')\<rparr>)"
    by (auto simp: parseOtpAuthUrl_def Let_def split: option.splits if_splits)
next
  assume "parseOtpAuthUrl new_URL url = Inl e"
  then show "\<exists>why. e = InvalidUri why"
    by (auto simp: parseOtpAuthUrl_def Let_def split: option.splits if_splits)
next
  assume "new_URL url = Some u \<and> (protocol u \<noteq> js ''otpauth:'' \<or> hostname u \<noteq> js ''totp'')"
  then show "\<exists>why. parseOtpAuthUrl new_URL url = Inl (InvalidUri why)"
    by (auto simp: parseOtpAuthUrl_def)
next
  assume a: "new_URL url = Some u \<and> protocol u = js ''otpauth:'' \<and> hostname u = js ''totp''
        \<and> 37 \<notin> set (pathname u)"
  then have "37 \<notin> set (drop 1 (pathname u))"
    by (auto dest: in_set_dropD)
  then have "decodeURIComponent (drop 1 (pathname u)) = Some (drop 1 (pathname u))"
    by (rule decodeURIComponent_plain)
  then show "parseOtpAuthUrl new_URL url
          = Inr \<lparr>label = drop 1 (pathname u),
                 secret' = fromEntries (searchParams u) (js ''secret''),
                 issuer = fromEntries (searchParams u) (js ''issuer'')\<rparr>"
    using a by (simp add: parseOtpAuthUrl_def Let_def)
qed

theorem parseOtpAuthUrl_result_witness:
  "parseOtpAuthUrl scenario_URL
     (js ''otpauth://totp/Example:alice@site.com?secret=JBSWY3DPEHPK3PXP&issuer=Example'')
     = Inr \<lparr>label = js ''Example:alice@site.com'', secret' = Some (js ''JBSWY3DPEHPK3PXP''),
            issuer = Some (js ''Example'')\<rparr>
   \<and> parseOtpAuthUrl scenario_URL (js ''otpauth://totp/x'')
       = Inr \<lparr>label = js ''x'', secret' = None, issuer = None\<rparr>
   \<and> (\<exists>why. parseOtpAuthUrl scenario_URL (js ''otpauth://hotp/x?secret=ABC'')
              = Inl (InvalidUri why))
   \<and> (\<exists>why. parseOtpAuthUrl scenario_URL (js ''hotp://totp/x?secret=ABC'')
              = Inl (InvalidUri why))"
proof -
  define u1 where "u1 = \<lparr>protocol = js ''otpauth:'', hostname = js ''totp'',
      pathname = js ''/Example:alice@site.com'',
      searchParams = [(js ''secret'', js ''JBSWY3DPEHPK3PXP''), (js ''issuer'', js ''Example'')]\<rparr>"
  define u2 where "u2 = \<lparr>protocol = js ''otpauth:'', hostname = js ''totp'',
      pathname = js ''/x'', searchParams = []\<rparr>"
  define u3 where "u3 = \<lparr>protocol = js ''otpauth:'', hostname = js ''hotp'',
      pathname = js ''/x'', searchParams = [(js ''secret'', js ''ABC'')]\<rparr>"
  define u4 where "u4 = \<lparr>protocol = js ''hotp:'', hostname = js ''totp'',
      pathname = js ''/x'', searchParams = [(js ''secret'', js ''ABC'')]\<rparr>"
  have p1: "scenario_URL
      (js ''otpauth://totp/Example:alice@site.com?secret=JBSWY3DPEHPK3PXP&issuer=Example'')
      = Some u1 \<and> protocol u1 = js ''otpauth:'' \<and> hostname u1 = js ''totp''
        \<and> 37 \<notin> set (pathname u1)"
    by (simp add: scenario_URL_def u1_def) (simp add: js_def)
  have p2: "scenario_URL (js ''otpauth://totp/x'')
      = Some u2 \<and> protocol u2 = js ''otpauth:'' \<and> hostname u2 = js ''totp''
        \<and> 37 \<notin> set (pathname u2)"
    by (simp add: scenario_URL_def u2_def) (simp add: js_def)
  have p3: "scenario_URL (js ''otpauth://hotp/x?secret=ABC'') = Some u3
      \<and> (protocol u3 \<noteq> js ''otpauth:'' \<or> hostname u3 \<noteq> js ''totp'')"
    by (simp add: scenario_URL_def u3_def) (simp add: js_def)
  have p4: "scenario_URL (js ''hotp://totp/x?secret=ABC'') = Some u4
      \<and> (protocol u4 \<noteq> js ''otpauth:'' \<or> hostname u4 \<noteq> js ''totp'')"
    by (simp add: scenario_URL_def u4_def) (simp add: js_def)
  have 1: "parseOtpAuthUrl scenario_URL
     (js ''otpauth://totp/Example:alice@site.com?secret=JBSWY3DPEHPK3PXP&issuer=Example'')
     = Inr \<lparr>label = drop 1 (pathname u1),
            secret' = fromEntries (searchParams u1) (js ''secret''),
            issuer = fromEntries (searchParams u1) (js ''issuer'')\<rparr>"
    using p1 parseOtpAuthUrl_result [where new_URL = scenario_URL and u = u1] by blast
  have 2: "parseOtpAuthUrl scenario_URL (js ''otpauth://totp/x'')
     = Inr \<lparr>label = drop 1 (pathname u2),
            secret' = fromEntries (searchParams u2) (js ''secret''),
            issuer = fromEntries (searchParams u2) (js ''issuer'')\<rparr>"
    using p2 parseOtpAuthUrl_result [where new_URL = scenario_URL and u = u2] by blast
  have 3: "\<exists>why. parseOtpAuthUrl scenario_URL (js ''otpauth://hotp/x?secret=ABC'')
              = Inl (InvalidUri why)"
    using p3 parseOtpAuthUrl_result [where new_URL = scenario_URL and u = u3] by blast
  have 4: "\<exists>why. parseOtpAuthUrl scenario_URL (js ''hotp://totp/x?secret=ABC'')
              = Inl (InvalidUri why)"
    using p4 parseOtpAuthUrl_result [where new_URL = scenario_URL and u = u4] by blast
  have l: "drop 1 (pathname u1) = js ''Example:alice@site.com''" "drop 1 (pathname u2) = js ''x''"
    by (simp_all add: u1_def u2_def js_def)
  show ?thesis
    using 1 2 3 4 unfolding l by (simp add: u1_def u2_def fromEntries_scenario)
qed

text \<open>
  The claim itself fails on \<open>otpauth://totp/%FF?secret=ABC\<close>: the URL parser accepts it
  with scheme \<open>otpauth\<close> and host \<open>totp\<close>, but \<open>%FF\<close> is no UTF-8 and
  \<open>decodeURIComponent\<close> throws.
\<close>

theorem parseOtpAuthUrl_percent_counterexample:
  "scenario_URL (js ''otpauth://totp/%FF?secret=ABC'')
     = Some \<lparr>protocol = js ''otpauth:'', hostname = js ''totp'', pathname = js ''/%FF'',
              searchParams = [(js ''secret'', js ''ABC'')]\<rparr>
   \<and> parseOtpAuthUrl scenario_URL (js ''otpauth://totp/%FF?secret=ABC'')
       = Inl (InvalidUri MalformedLabel)"
proof -
  have d: "drop (Suc 0) (js ''/%FF'') = js ''%FF''" by (simp add: js_def)
  have p: "scenario_URL (js ''otpauth://totp/%FF?secret=ABC'')
     = Some \<lparr>protocol = js ''otpauth:'', hostname = js ''totp'', pathname = js ''/%FF'',
              searchParams = [(js ''secret'', js ''ABC'')]\<rparr>"
    by (simp add: scenario_URL_def) (simp add: js_def)
  then show ?thesis
    by (simp add: parseOtpAuthUrl_def d decodeURIComponent_FF)
qed

end
